theory Spec2Isabelle
  imports Main "HOL-Library.AList"
begin

section \<open>Data model\<close>

text \<open>
  The development embeds \<^verbatim>\<open>ConnectionPoolManager\<close> (connection_pool_manager.cpp).
  The manager runs on one event-loop thread; every method is a function on the state of
  the manager and of the objects it points to. Pointers are natural numbers handed out
  by one allocator; the objects behind them live in two heaps.
\<close>

datatype address = Address (ip: string) (port: nat)

type_synonym connection_error = nat
type_synonym pool_ptr = nat
type_synonym connector_ptr = nat

datatype close_state = CLOSE_STATE_OPEN | CLOSE_STATE_CLOSING | CLOSE_STATE_CLOSED

text \<open>
  A \<^verbatim>\<open>ConnectionPoolManagerListener*\<close>: null, the file-local static
  \<^verbatim>\<open>nop_connection_pool_manager_listener__\<close>, or a listener of the user.
\<close>

datatype listener_ptr = NullListener | NopListener | UserListener nat

datatype callback =
    on_pool_up address
  | on_pool_down address
  | on_pool_critical_error address connection_error string
  | on_close

text \<open>What can stop a method before it returns.\<close>

datatype fault = NullDereference | UseAfterFree | WouldBlock

record connection_pool_manager_settings =
  num_connections_per_host :: nat
  reconnect_wait_time_ms :: nat
  queue_size_io :: nat

subsection \<open>Collaborators that are not part of connection_pool_manager.cpp\<close>

text \<open>
  Modelled from the spec: \<^verbatim>\<open>PooledConnection\<close> and \<^verbatim>\<open>ConnectionPool\<close>
  (connection_pool.cpp is missing). A pool serves one address, is in one of five states
  and holds its live connections.
\<close>

record pooled_connection =
  connection_id :: nat
  in_flight_count :: nat
  max_streams :: nat
  is_closing :: bool

datatype pool_state = Growing | Ready | Reconnecting | Closing | Closed

record connection_pool =
  pool_address :: address
  pool_state :: pool_state
  connections :: "pooled_connection list"

text \<open>
  Modelled from the spec: \<^verbatim>\<open>ConnectionPool::find_least_busy\<close>. It returns the live
  connection with the lowest in-flight count among those with a free stream id, the
  lowest connection id first among equals, and none when the pool is empty, saturated,
  or has been closed.
\<close>

definition less_busy :: "pooled_connection \<Rightarrow> pooled_connection \<Rightarrow> bool" where
  "less_busy c d \<longleftrightarrow>
     in_flight_count c < in_flight_count d \<or>
     (in_flight_count c = in_flight_count d \<and> connection_id c < connection_id d)"

primrec least_busy_of :: "pooled_connection list \<Rightarrow> pooled_connection option" where
  "least_busy_of [] = None"
| "least_busy_of (c # cs) =
     (case least_busy_of cs of
        None \<Rightarrow> Some c
      | Some d \<Rightarrow> if less_busy d c then Some d else Some c)"

definition has_free_stream :: "pooled_connection \<Rightarrow> bool" where
  "has_free_stream c \<longleftrightarrow> \<not> is_closing c \<and> in_flight_count c < max_streams c"

definition pool_find_least_busy :: "connection_pool \<Rightarrow> pooled_connection option" where
  "pool_find_least_busy p =
     (if pool_state p = Closing \<or> pool_state p = Closed then None
      else least_busy_of (filter has_free_stream (connections p)))"

text \<open>
  Modelled from the spec: \<^verbatim>\<open>ConnectionPool::close\<close> initiates the close of the pool;
  the pool reports to the manager later, with \<^verbatim>\<open>notify_closed\<close>, when its last
  connection is gone.
\<close>

definition pool_close :: "connection_pool \<Rightarrow> connection_pool" where
  "pool_close p = (if pool_state p = Closed then p else p\<lparr>pool_state := Closing\<rparr>)"

text \<open>
  Modelled from the spec: \<^verbatim>\<open>ConnectionPoolConnector\<close> (connection_pool_connector.cpp
  is missing). A connector is one-shot: \<^verbatim>\<open>connect\<close> starts it, \<^verbatim>\<open>cancel\<close> moves
  it to cancelled, and it completes at most once, with a pool when at least one
  connection came up and with no pool and the first error code and message otherwise.
\<close>

datatype connector_status = Unstarted | Connecting | Cancelled | Completed

record connection_pool_connector =
  connector_address :: address
  connector_status :: connector_status
  connector_pool :: "pool_ptr option"
  error_code :: connection_error
  error_message :: string

definition is_ok :: "connection_pool_connector \<Rightarrow> bool" where
  "is_ok c \<longleftrightarrow> connector_pool c \<noteq> None"

definition release_pool :: "connection_pool_connector \<Rightarrow> pool_ptr option" where
  "release_pool c = connector_pool c"

definition new_connector :: "address \<Rightarrow> connection_pool_connector" where
  "new_connector a =
     \<lparr>connector_address = a, connector_status = Unstarted, connector_pool = None,
      error_code = 0, error_message = []\<rparr>"

text \<open>Calls the manager makes on pools and connectors, in the order it makes them.\<close>

datatype call =
    PoolClose pool_ptr
  | PoolFlush pool_ptr
  | ConnectorConnect connector_ptr
  | ConnectorCancel connector_ptr

subsection \<open>The manager and its surroundings\<close>

text \<open>
  The fields ending in \<open>_m\<close> are the members of \<^verbatim>\<open>ConnectionPoolManager\<close>; the
  trailing underscore of the source names is spelled \<open>_m\<close>, since a name cannot end
  with an underscore here. \<^verbatim>\<open>loop_\<close> and \<^verbatim>\<open>metrics_\<close>, two pointers the file
  never reads, are left out.
  \<^verbatim>\<open>pools_\<close> is a dense hash map; it is kept as an association list with distinct
  keys whose order stands for the iteration order of the map. \<^verbatim>\<open>ref_count_\<close> is the
  counter behind \<^verbatim>\<open>inc_ref\<close> and \<^verbatim>\<open>dec_ref\<close>; the manager is deallocated when it
  reaches zero. \<^verbatim>\<open>keyspace_mutex_\<close> is true while the mutex is held.
  The other fields are the heaps, the allocator, the listener callbacks fired so far
  (with the listener that received each) and the calls made on pools and connectors.
\<close>

record world =
  protocol_version_m :: int
  listener_m :: listener_ptr
  settings_m :: connection_pool_manager_settings
  close_state_m :: close_state
  keyspace_m :: string
  keyspace_mutex_m :: bool
  pools_m :: "(address \<times> pool_ptr) list"
  pending_pools_m :: "connector_ptr list"
  to_flush_m :: "pool_ptr list"
  ref_count_m :: nat
  pool_heap :: "pool_ptr \<Rightarrow> connection_pool"
  connector_heap :: "connector_ptr \<Rightarrow> connection_pool_connector"
  next_ptr :: nat
  fired :: "(listener_ptr \<times> callback) list"
  calls :: "call list"

section \<open>The methods of ConnectionPoolManager\<close>

text \<open>
  Modelled from the spec: the reference count that governs the lifetime of the manager.
  The constructor takes one reference and \<^verbatim>\<open>maybe_closed\<close> drops it; other holders
  take and drop their own. No method runs on a manager whose count is zero (see
  \<open>step\<close> below), so \<^verbatim>\<open>dec_ref\<close> is only ever applied to a positive count.
\<close>

definition inc_ref :: "world \<Rightarrow> world" where
  "inc_ref w = w\<lparr>ref_count_m := ref_count_m w + 1\<rparr>"

definition dec_ref :: "world \<Rightarrow> world" where
  "dec_ref w = w\<lparr>ref_count_m := ref_count_m w - 1\<rparr>"

text \<open>
  The constructor. The heaps start with no object allocated: every pointer from
  \<open>next_ptr\<close> on is free, and what the heaps hold there is a placeholder.
\<close>

definition ConnectionPoolManager ::
    "int \<Rightarrow> string \<Rightarrow> connection_pool_manager_settings \<Rightarrow> world" where
  "ConnectionPoolManager protocol_version keyspace settings =
     inc_ref
       \<lparr>protocol_version_m = protocol_version,
        listener_m = NopListener,
        settings_m = settings,
        close_state_m = CLOSE_STATE_OPEN,
        keyspace_m = keyspace,
        keyspace_mutex_m = False,
        pools_m = [],
        pending_pools_m = [],
        to_flush_m = [],
        ref_count_m = 0,
        pool_heap = (\<lambda>_. \<lparr>pool_address = Address [] 0, pool_state = Closed, connections = []\<rparr>),
        connector_heap = (\<lambda>_. new_connector (Address [] 0)),
        next_ptr = 0,
        fired = [],
        calls = []\<rparr>"

text \<open>A call through \<^verbatim>\<open>listener_\<close>: a null pointer faults, any other listener receives it.\<close>

definition fire :: "callback \<Rightarrow> world \<Rightarrow> fault + world" where
  "fire cb w =
     (if listener_m w = NullListener then Inl NullDereference
      else Inr (w\<lparr>fired := fired w @ [(listener_m w, cb)]\<rparr>))"

definition find_least_busy :: "address \<Rightarrow> world \<Rightarrow> pooled_connection option" where
  "find_least_busy a w =
     (case map_of (pools_m w) a of
        None \<Rightarrow> None
      | Some p \<Rightarrow> pool_find_least_busy (pool_heap w p))"

definition ConnectionPool_flush :: "pool_ptr \<Rightarrow> world \<Rightarrow> world" where
  "ConnectionPool_flush p w = w\<lparr>calls := calls w @ [PoolFlush p]\<rparr>"

primrec flush_pools :: "pool_ptr list \<Rightarrow> world \<Rightarrow> world" where
  "flush_pools [] w = w"
| "flush_pools (p # ps) w = flush_pools ps (ConnectionPool_flush p w)"

definition flush :: "world \<Rightarrow> world" where
  "flush w = (flush_pools (to_flush_m w) w)\<lparr>to_flush_m := []\<rparr>"

definition available :: "world \<Rightarrow> address list" where
  "available w = map fst (pools_m w)"

definition ConnectionPoolConnector_connect :: "connector_ptr \<Rightarrow> world \<Rightarrow> world" where
  "ConnectionPoolConnector_connect c w =
     w\<lparr>connector_heap := (connector_heap w)(c := (connector_heap w c)\<lparr>connector_status := Connecting\<rparr>),
       calls := calls w @ [ConnectorConnect c]\<rparr>"

definition ConnectionPoolConnector_cancel :: "connector_ptr \<Rightarrow> world \<Rightarrow> world" where
  "ConnectionPoolConnector_cancel c w =
     w\<lparr>connector_heap := (connector_heap w)(c := (connector_heap w c)\<lparr>connector_status := Cancelled\<rparr>),
       calls := calls w @ [ConnectorCancel c]\<rparr>"

definition ConnectionPool_close :: "pool_ptr \<Rightarrow> world \<Rightarrow> world" where
  "ConnectionPool_close p w =
     w\<lparr>pool_heap := (pool_heap w)(p := pool_close (pool_heap w p)),
       calls := calls w @ [PoolClose p]\<rparr>"

definition pending_for :: "address \<Rightarrow> world \<Rightarrow> bool" where
  "pending_for a w \<longleftrightarrow>
     list_ex (\<lambda>c. connector_address (connector_heap w c) = a) (pending_pools_m w)"

definition allocate_connector :: "address \<Rightarrow> world \<Rightarrow> world" where
  "allocate_connector a w =
     w\<lparr>connector_heap := (connector_heap w)(next_ptr w := new_connector a),
       next_ptr := Suc (next_ptr w)\<rparr>"

definition add :: "address \<Rightarrow> world \<Rightarrow> world" where
  "add a w =
     (if map_of (pools_m w) a \<noteq> None then w
      else if pending_for a w then w
      else
        let connector = next_ptr w;
            w1 = allocate_connector a w;
            w2 = w1\<lparr>pending_pools_m := pending_pools_m w1 @ [connector]\<rparr>
        in ConnectionPoolConnector_connect connector w2)"

definition remove :: "address \<Rightarrow> world \<Rightarrow> world" where
  "remove a w =
     (case map_of (pools_m w) a of
        None \<Rightarrow> w
      | Some p \<Rightarrow> ConnectionPool_close p w)"

definition maybe_closed :: "world \<Rightarrow> fault + world" where
  "maybe_closed w =
     (if close_state_m w = CLOSE_STATE_CLOSING \<and> pools_m w = [] then
        (case fire on_close (w\<lparr>close_state_m := CLOSE_STATE_CLOSED\<rparr>) of
           Inl f \<Rightarrow> Inl f
         | Inr w' \<Rightarrow> Inr (dec_ref w'))
      else Inr w)"

primrec close_pools :: "(address \<times> pool_ptr) list \<Rightarrow> world \<Rightarrow> world" where
  "close_pools [] w = w"
| "close_pools (e # es) w = close_pools es (ConnectionPool_close (snd e) w)"

primrec cancel_connectors :: "connector_ptr list \<Rightarrow> world \<Rightarrow> world" where
  "cancel_connectors [] w = w"
| "cancel_connectors (c # cs) w = cancel_connectors cs (ConnectionPoolConnector_cancel c w)"

definition close :: "world \<Rightarrow> fault + world" where
  "close w =
     maybe_closed
       (if close_state_m w = CLOSE_STATE_OPEN then
          cancel_connectors (pending_pools_m w)
            (close_pools (pools_m w) (w\<lparr>close_state_m := CLOSE_STATE_CLOSING\<rparr>))
        else w)"

definition set_listener :: "listener_ptr \<Rightarrow> world \<Rightarrow> world" where
  "set_listener listener w =
     w\<lparr>listener_m := (if listener \<noteq> NullListener then listener else NopListener)\<rparr>"

text \<open>
  \<^verbatim>\<open>ScopedMutex\<close> takes the keyspace mutex on entry, which blocks while another
  holder has it, and releases it when the method returns.
\<close>

definition ScopedMutex_lock :: "world \<Rightarrow> fault + world" where
  "ScopedMutex_lock w =
     (if keyspace_mutex_m w then Inl WouldBlock else Inr (w\<lparr>keyspace_mutex_m := True\<rparr>))"

definition ScopedMutex_unlock :: "world \<Rightarrow> world" where
  "ScopedMutex_unlock w = w\<lparr>keyspace_mutex_m := False\<rparr>"

definition keyspace :: "world \<Rightarrow> fault + (string \<times> world)" where
  "keyspace w =
     (case ScopedMutex_lock w of
        Inl f \<Rightarrow> Inl f
      | Inr w1 \<Rightarrow> Inr (keyspace_m w1, ScopedMutex_unlock w1))"

definition set_keyspace :: "string \<Rightarrow> world \<Rightarrow> fault + world" where
  "set_keyspace k w =
     (case ScopedMutex_lock w of
        Inl f \<Rightarrow> Inl f
      | Inr w1 \<Rightarrow> Inr (ScopedMutex_unlock (w1\<lparr>keyspace_m := k\<rparr>)))"

definition internal_add_pool :: "pool_ptr \<Rightarrow> world \<Rightarrow> world" where
  "internal_add_pool p w =
     w\<lparr>pools_m := AList.update (pool_address (pool_heap w p)) p (pools_m w)\<rparr>"

definition add_pool :: "pool_ptr \<Rightarrow> world \<Rightarrow> world" where
  "add_pool p w = internal_add_pool p w"

definition notify_closed :: "pool_ptr \<Rightarrow> bool \<Rightarrow> world \<Rightarrow> fault + world" where
  "notify_closed p should_notify_down w =
     (let w1 = w\<lparr>pools_m := AList.delete (pool_address (pool_heap w p)) (pools_m w)\<rparr>;
          w2 = w1\<lparr>to_flush_m := removeAll p (to_flush_m w1)\<rparr>
      in if should_notify_down \<and> listener_m w2 \<noteq> NullListener then
           (case fire (on_pool_down (pool_address (pool_heap w2 p))) w2 of
              Inl f \<Rightarrow> Inl f
            | Inr w3 \<Rightarrow> maybe_closed w3)
         else maybe_closed w2)"

definition notify_up :: "pool_ptr \<Rightarrow> world \<Rightarrow> fault + world" where
  "notify_up p w = fire (on_pool_up (pool_address (pool_heap w p))) w"

definition notify_down :: "pool_ptr \<Rightarrow> world \<Rightarrow> fault + world" where
  "notify_down p w = fire (on_pool_down (pool_address (pool_heap w p))) w"

definition notify_critical_error ::
    "pool_ptr \<Rightarrow> connection_error \<Rightarrow> string \<Rightarrow> world \<Rightarrow> fault + world" where
  "notify_critical_error p code message w =
     fire (on_pool_critical_error (pool_address (pool_heap w p)) code message) w"

definition requires_flush :: "pool_ptr \<Rightarrow> world \<Rightarrow> world" where
  "requires_flush p w = w\<lparr>to_flush_m := List.insert p (to_flush_m w)\<rparr>"

definition handle_connect :: "connector_ptr \<Rightarrow> world \<Rightarrow> fault + world" where
  "handle_connect pool_connector w =
     (let w1 = w\<lparr>pending_pools_m := removeAll pool_connector (pending_pools_m w)\<rparr>;
          c = connector_heap w1 pool_connector
      in if is_ok c then
           (case release_pool c of
              None \<Rightarrow> Inl NullDereference
            | Some p \<Rightarrow> Inr (internal_add_pool p w1))
         else
           fire (on_pool_critical_error (connector_address c) (error_code c) (error_message c)) w1)"

definition on_connect :: "connector_ptr \<Rightarrow> world \<Rightarrow> fault + world" where
  "on_connect pool_connector w = handle_connect pool_connector w"

section \<open>Runs of the manager\<close>

text \<open>
  Modelled from the spec: the completion of a \<^verbatim>\<open>ConnectionPoolConnector\<close>. The
  transport reports every connection attempt, an error code with its message or a ready
  connection. With at least one connection the connector holds a ready pool for its
  address; with none it carries the first error code and message.
\<close>

type_synonym attempt = "(connection_error \<times> string) + pooled_connection"

primrec successes :: "attempt list \<Rightarrow> pooled_connection list" where
  "successes [] = []"
| "successes (x # xs) = (case x of Inl _ \<Rightarrow> successes xs | Inr c \<Rightarrow> c # successes xs)"

primrec first_error :: "attempt list \<Rightarrow> (connection_error \<times> string) option" where
  "first_error [] = None"
| "first_error (x # xs) = (case x of Inl e \<Rightarrow> Some e | Inr _ \<Rightarrow> first_error xs)"

definition allocate_pool :: "connection_pool \<Rightarrow> world \<Rightarrow> world" where
  "allocate_pool obj w =
     w\<lparr>pool_heap := (pool_heap w)(next_ptr w := obj), next_ptr := Suc (next_ptr w)\<rparr>"

definition complete :: "connector_ptr \<Rightarrow> attempt list \<Rightarrow> world \<Rightarrow> world" where
  "complete c attempts w =
     (let conn = connector_heap w c in
      if successes attempts \<noteq> [] then
        (allocate_pool
           \<lparr>pool_address = connector_address conn, pool_state = Ready,
            connections = successes attempts\<rparr> w)
          \<lparr>connector_heap := (connector_heap w)
             (c := conn\<lparr>connector_status := Completed, connector_pool := Some (next_ptr w)\<rparr>)\<rparr>
      else
        (case first_error attempts of
           None \<Rightarrow>
             w\<lparr>connector_heap := (connector_heap w)
               (c := conn\<lparr>connector_status := Completed, connector_pool := None\<rparr>)\<rparr>
         | Some (code, message) \<Rightarrow>
             w\<lparr>connector_heap := (connector_heap w)
               (c := conn\<lparr>connector_status := Completed, connector_pool := None,
                           error_code := code, error_message := message\<rparr>)\<rparr>))"

text \<open>
  What can happen to a manager: a call of its public interface, a call from a pool
  through the protected interface, the completion of a connector (which calls
  \<^verbatim>\<open>on_connect\<close> unless the connector is not connecting any more: cancelled, or
  done), the construction of a pool outside the manager, and a holder of the manager
  taking or dropping a reference. A method called on a deallocated manager faults.
\<close>

datatype event =
    Add address
  | Remove address
  | Close
  | SetListener listener_ptr
  | SetKeyspace string
  | Flush
  | AddPool pool_ptr
  | NotifyClosed pool_ptr bool
  | NotifyUp pool_ptr
  | NotifyDown pool_ptr
  | NotifyCriticalError pool_ptr connection_error string
  | RequiresFlush pool_ptr
  | ConnectorCompletes connector_ptr "attempt list"
  | NewPool connection_pool
  | Retain
  | Release

primrec call_method :: "event \<Rightarrow> world \<Rightarrow> fault + world" where
  "call_method (Add a) w = Inr (add a w)"
| "call_method (Remove a) w = Inr (remove a w)"
| "call_method Close w = close w"
| "call_method (SetListener l) w = Inr (set_listener l w)"
| "call_method (SetKeyspace k) w = set_keyspace k w"
| "call_method Flush w = Inr (flush w)"
| "call_method (AddPool p) w = Inr (add_pool p w)"
| "call_method (NotifyClosed p d) w = notify_closed p d w"
| "call_method (NotifyUp p) w = notify_up p w"
| "call_method (NotifyDown p) w = notify_down p w"
| "call_method (NotifyCriticalError p code message) w = notify_critical_error p code message w"
| "call_method (RequiresFlush p) w = Inr (requires_flush p w)"
| "call_method (ConnectorCompletes c attempts) w = on_connect c (complete c attempts w)"
| "call_method (NewPool obj) w = Inr (allocate_pool obj w)"
| "call_method Retain w = Inr (inc_ref w)"
| "call_method Release w = Inr (dec_ref w)"

definition step :: "event \<Rightarrow> world \<Rightarrow> fault + world" where
  "step e w =
     (case e of
        ConnectorCompletes c _ \<Rightarrow>
          if connector_status (connector_heap w c) \<noteq> Connecting then Inr w
          else if ref_count_m w = 0 then Inl UseAfterFree
          else call_method e w
      | NewPool _ \<Rightarrow> call_method e w
      | _ \<Rightarrow> if ref_count_m w = 0 then Inl UseAfterFree else call_method e w)"

primrec run :: "event list \<Rightarrow> world \<Rightarrow> fault + world" where
  "run [] w = Inr w"
| "run (e # es) w = (case step e w of Inl f \<Rightarrow> Inl f | Inr w' \<Rightarrow> run es w')"

section \<open>Auxiliary definitions\<close>

text \<open>The two loops of \<^verbatim>\<open>close\<close>, seen on the heaps alone.\<close>

primrec heap_close_pools ::
    "(address \<times> pool_ptr) list \<Rightarrow> (pool_ptr \<Rightarrow> connection_pool) \<Rightarrow> pool_ptr \<Rightarrow> connection_pool" where
  "heap_close_pools [] h = h"
| "heap_close_pools (e # es) h = heap_close_pools es (h(snd e := pool_close (h (snd e))))"

primrec heap_cancel_connectors ::
    "connector_ptr list \<Rightarrow> (connector_ptr \<Rightarrow> connection_pool_connector) \<Rightarrow>
     connector_ptr \<Rightarrow> connection_pool_connector" where
  "heap_cancel_connectors [] h = h"
| "heap_cancel_connectors (c # cs) h =
     heap_cancel_connectors cs (h(c := (h c)\<lparr>connector_status := Cancelled\<rparr>))"

text \<open>The order of the enumeration \<^verbatim>\<open>CloseState\<close>.\<close>

primrec close_rank :: "close_state \<Rightarrow> nat" where
  "close_rank CLOSE_STATE_OPEN = 0"
| "close_rank CLOSE_STATE_CLOSING = 1"
| "close_rank CLOSE_STATE_CLOSED = 2"

text \<open>No address with a pool has a pending connector.\<close>

definition pools_pending_disjoint :: "world \<Rightarrow> bool" where
  "pools_pending_disjoint w \<longleftrightarrow>
     (\<forall>c \<in> set (pending_pools_m w).
        map_of (pools_m w) (connector_address (connector_heap w c)) = None)"

text \<open>
  \<^verbatim>\<open>add_pool\<close> does not look at \<^verbatim>\<open>pending_pools_\<close>. Its caller respects the
  pending connectors when it registers a pool only for an address that has none.
\<close>

definition respects_pending :: "event \<Rightarrow> world \<Rightarrow> bool" where
  "respects_pending e w =
     (case e of
        AddPool p \<Rightarrow> \<not> pending_for (pool_address (pool_heap w p)) w
      | _ \<Rightarrow> True)"

primrec admissible :: "event list \<Rightarrow> world \<Rightarrow> bool" where
  "admissible [] w = True"
| "admissible (e # es) w =
     (respects_pending e w \<and>
      (case step e w of Inl _ \<Rightarrow> True | Inr w' \<Rightarrow> admissible es w'))"

text \<open>
  The pending connectors are allocated, no two of them are for one address, and every
  connector that is still connecting is pending.
\<close>

definition pending_wf :: "world \<Rightarrow> bool" where
  "pending_wf w \<longleftrightarrow>
     (\<forall>c \<in> set (pending_pools_m w). c < next_ptr w) \<and>
     distinct (map (\<lambda>c. connector_address (connector_heap w c)) (pending_pools_m w)) \<and>
     (\<forall>c. connector_status (connector_heap w c) = Connecting \<longrightarrow> c \<in> set (pending_pools_m w))"

text \<open>
  A closing manager still has a pool, and \<^verbatim>\<open>on_close\<close> has been fired once by a
  closed manager and never by any other.
\<close>

definition on_close_count :: "world \<Rightarrow> nat" where
  "on_close_count w = count_list (map snd (fired w)) on_close"

definition close_inv :: "world \<Rightarrow> bool" where
  "close_inv w \<longleftrightarrow>
     (close_state_m w = CLOSE_STATE_CLOSING \<longrightarrow> pools_m w \<noteq> []) \<and>
     on_close_count w = (if close_state_m w = CLOSE_STATE_CLOSED then 1 else 0)"

text \<open>A manager, two hosts and a connection to try the statements on.\<close>

definition example_manager :: world where
  "example_manager =
     ConnectionPoolManager 4 ''ks''
       \<lparr>num_connections_per_host = 2, reconnect_wait_time_ms = 2000, queue_size_io = 8192\<rparr>"

definition host1 :: address where
  "host1 = Address ''10.0.0.1'' 9042"

definition host2 :: address where
  "host2 = Address ''10.0.0.2'' 9042"

definition idle_connection :: "nat \<Rightarrow> pooled_connection" where
  "idle_connection i =
     \<lparr>connection_id = i, in_flight_count = 0, max_streams = 128, is_closing = False\<rparr>"

text \<open>
  The manager after \<^verbatim>\<open>add(host1)\<close> and the completion of the connector with one
  connection refused and one ready: the pool of \<open>host1\<close> is object 1.
\<close>

definition one_pool_manager :: world where
  "one_pool_manager =
     projr (run [Add host1, ConnectorCompletes 0 [Inl (1, ''refused''), Inr (idle_connection 7)]]
       example_manager)"

section \<open>Basic facts\<close>

lemma close_pools_frame:
  "close_pools es w =
     w\<lparr>pool_heap := heap_close_pools es (pool_heap w),
       calls := calls w @ map (\<lambda>e. PoolClose (snd e)) es\<rparr>"
  by (induction es arbitrary: w) (simp_all add: ConnectionPool_close_def)

lemma cancel_connectors_frame:
  "cancel_connectors cs w =
     w\<lparr>connector_heap := heap_cancel_connectors cs (connector_heap w),
       calls := calls w @ map ConnectorCancel cs\<rparr>"
  by (induction cs arbitrary: w) (simp_all add: ConnectionPoolConnector_cancel_def)

lemma flush_pools_frame:
  "flush_pools ps w = w\<lparr>calls := calls w @ map PoolFlush ps\<rparr>"
  by (induction ps arbitrary: w) (simp_all add: ConnectionPool_flush_def)

lemma heap_close_pools_state:
  "pool_state (heap_close_pools es h p) \<in> {Closing, Closed} \<longleftrightarrow>
     p \<in> snd ` set es \<or> pool_state (h p) \<in> {Closing, Closed}"
  by (induction es arbitrary: h) (auto simp: pool_close_def)

lemma heap_close_pools_address:
  "pool_address (heap_close_pools es h p) = pool_address (h p)"
  by (induction es arbitrary: h) (auto simp: pool_close_def)

lemma heap_cancel_connectors_status:
  "connector_status (heap_cancel_connectors cs h c) =
     (if c \<in> set cs then Cancelled else connector_status (h c))"
  by (induction cs arbitrary: h) auto

lemma heap_cancel_connectors_address:
  "connector_address (heap_cancel_connectors cs h c) = connector_address (h c)"
  by (induction cs arbitrary: h) auto

subsection \<open>What one step preserves\<close>

lemmas method_defs =
  add_def remove_def close_def set_listener_def set_keyspace_def flush_def add_pool_def
  notify_closed_def notify_up_def notify_down_def notify_critical_error_def
  requires_flush_def on_connect_def handle_connect_def internal_add_pool_def maybe_closed_def
  fire_def inc_ref_def dec_ref_def allocate_pool_def allocate_connector_def
  ConnectionPoolConnector_connect_def ConnectionPool_close_def
  ScopedMutex_lock_def ScopedMutex_unlock_def
  close_pools_frame cancel_connectors_frame flush_pools_frame

lemma complete_fields:
  "pools_m (complete c as w) = pools_m w"
  "pending_pools_m (complete c as w) = pending_pools_m w"
  "listener_m (complete c as w) = listener_m w"
  "close_state_m (complete c as w) = close_state_m w"
  "keyspace_m (complete c as w) = keyspace_m w"
  "keyspace_mutex_m (complete c as w) = keyspace_mutex_m w"
  "to_flush_m (complete c as w) = to_flush_m w"
  "ref_count_m (complete c as w) = ref_count_m w"
  "fired (complete c as w) = fired w"
  "calls (complete c as w) = calls w"
  by (simp_all add: complete_def allocate_pool_def Let_def split: option.splits prod.splits)

lemma step_listener:
  "step e w = Inr w' \<Longrightarrow> listener_m w \<noteq> NullListener \<Longrightarrow> listener_m w' \<noteq> NullListener"
  by (cases e) (auto simp: step_def method_defs complete_fields Let_def split: if_splits sum.splits option.splits)

lemma step_mutex:
  "step e w = Inr w' \<Longrightarrow> \<not> keyspace_mutex_m w \<Longrightarrow> \<not> keyspace_mutex_m w'"
  by (cases e) (auto simp: step_def method_defs complete_fields Let_def split: if_splits sum.splits option.splits)

lemma step_keyspace:
  "step e w = Inr w' \<Longrightarrow> \<forall>k. e \<noteq> SetKeyspace k \<Longrightarrow> keyspace_m w' = keyspace_m w"
  by (cases e) (auto simp: step_def method_defs complete_fields Let_def split: if_splits sum.splits option.splits)

lemma step_close_inv:
  "step e w = Inr w' \<Longrightarrow> close_inv w \<Longrightarrow> close_inv w'"
  by (cases e) (auto simp: close_inv_def on_close_count_def step_def method_defs complete_fields Let_def split: if_splits sum.splits option.splits)

lemma step_close_rank:
  "step e w = Inr w' \<Longrightarrow> close_rank (close_state_m w) \<le> close_rank (close_state_m w')"
  by (cases e; cases "close_state_m w") (auto simp: step_def method_defs complete_fields Let_def split: if_splits sum.splits option.splits)

lemma complete_heap:
  "connector_address (connector_heap (complete c as w) c') = connector_address (connector_heap w c')"
  "connector_status (connector_heap (complete c as w) c') = (if c' = c then Completed else connector_status (connector_heap w c'))"
  "n < next_ptr w \<Longrightarrow> n < next_ptr (complete c as w)"
  by (simp_all add: complete_def allocate_pool_def Let_def split: option.splits prod.splits)

lemma pending_for_iff:
  "pending_for a w \<longleftrightarrow> (\<exists>c \<in> set (pending_pools_m w). connector_address (connector_heap w c) = a)"
  by (simp add: pending_for_def list_ex_iff)

lemma distinct_map_removeAll:
  "distinct (map f xs) \<Longrightarrow> distinct (map f (removeAll x xs))"
  by (induction xs) auto

lemma map_heap_upd_fresh:
  "n \<notin> set cs \<Longrightarrow> map (\<lambda>c. f (if c = n then x else h c)) cs = map (\<lambda>c. f (h c)) cs"
  by (induction cs) auto

lemma add_pending_wf: "pending_wf w \<Longrightarrow> pending_wf (add a w)"
proof -
  assume wf: "pending_wf w"
  show ?thesis
  proof (cases "map_of (pools_m w) a \<noteq> None \<or> pending_for a w")
    case True
    with wf show ?thesis by (auto simp: add_def)
  next
    case False
    from wf have fresh: "next_ptr w \<notin> set (pending_pools_m w)"
      by (auto simp: pending_wf_def)
    from False have none: "\<forall>c \<in> set (pending_pools_m w). connector_address (connector_heap w c) \<noteq> a"
      by (simp add: pending_for_iff)
    from False have eq: "add a w =
        w\<lparr>next_ptr := Suc (next_ptr w),
          pending_pools_m := pending_pools_m w @ [next_ptr w],
          connector_heap := (connector_heap w)
            (next_ptr w := (new_connector a)\<lparr>connector_status := Connecting\<rparr>),
          calls := calls w @ [ConnectorConnect (next_ptr w)]\<rparr>"
      by (simp add: add_def allocate_connector_def ConnectionPoolConnector_connect_def Let_def)
    have "distinct (map (\<lambda>c. connector_address (connector_heap (add a w) c)) (pending_pools_m (add a w)))"
      using wf fresh none
      by (auto simp: eq pending_wf_def map_heap_upd_fresh new_connector_def)
    moreover have "\<forall>c \<in> set (pending_pools_m (add a w)). c < next_ptr (add a w)"
      using wf by (auto simp: eq pending_wf_def less_Suc_eq)
    moreover have "\<forall>c. connector_status (connector_heap (add a w) c) = Connecting
        \<longrightarrow> c \<in> set (pending_pools_m (add a w))"
      using wf by (auto simp: eq pending_wf_def)
    ultimately show ?thesis by (simp add: pending_wf_def)
  qed
qed

lemma step_pending_wf:
  "step e w = Inr w' \<Longrightarrow> pending_wf w \<Longrightarrow> pending_wf w'"
proof (cases e)
  case (Add a)
  assume "step e w = Inr w'" "pending_wf w"
  with Add show ?thesis
    by (auto simp: step_def add_pending_wf split: if_splits)
next
  case (ConnectorCompletes c as)
  assume "step e w = Inr w'" "pending_wf w"
  with ConnectorCompletes show ?thesis
    by (auto simp: pending_wf_def step_def method_defs complete_fields complete_heap Let_def
          distinct_map_removeAll is_ok_def release_pool_def
        split: if_splits sum.splits option.splits)
qed (auto simp: pending_wf_def step_def method_defs Let_def heap_cancel_connectors_status
       heap_cancel_connectors_address less_Suc_eq split: if_splits sum.splits option.splits)

lemma map_of_delete_None:
  "map_of al k = None \<Longrightarrow> map_of (AList.delete k' al) k = None"
  by (simp add: delete_conv')

lemma step_disjoint:
  assumes "step e w = Inr w'" and "pending_wf w" and "pools_pending_disjoint w"
    and "respects_pending e w"
  shows "pools_pending_disjoint w'"
proof (cases e)
  case (Add a)
  with assms show ?thesis
    by (auto simp: pools_pending_disjoint_def step_def method_defs pending_wf_def Let_def
          new_connector_def split: if_splits)
next
  case (AddPool p)
  with assms show ?thesis
    by (auto simp: pools_pending_disjoint_def step_def method_defs respects_pending_def
          pending_for_iff update_conv' split: if_splits)
next
  case (NotifyClosed p d)
  with assms show ?thesis
    by (auto simp: pools_pending_disjoint_def step_def method_defs Let_def map_of_delete_None
          split: if_splits sum.splits)
next
  case (ConnectorCompletes c as)
  show ?thesis
  proof (cases "connector_status (connector_heap w c) = Connecting")
    case False
    with assms ConnectorCompletes show ?thesis by (simp add: step_def)
  next
    case True
    with assms(2) have cin: "c \<in> set (pending_pools_m w)"
      by (simp add: pending_wf_def)
    have others: "connector_address (connector_heap w c') \<noteq> connector_address (connector_heap w c)"
      if "c' \<in> set (pending_pools_m w)" "c' \<noteq> c" for c'
      using assms(2) cin that by (auto simp: pending_wf_def distinct_map inj_on_def)
    from assms ConnectorCompletes True others show ?thesis
      by (auto simp: pools_pending_disjoint_def step_def method_defs complete_fields complete_heap
            is_ok_def release_pool_def Let_def update_conv' complete_def allocate_pool_def
          split: if_splits sum.splits option.splits prod.splits)
  qed
qed (use assms in \<open>auto simp: pools_pending_disjoint_def step_def method_defs Let_def
       heap_cancel_connectors_address split: if_splits sum.splits option.splits\<close>)

lemma step_distinct_pools:
  "step e w = Inr w' \<Longrightarrow> distinct (map fst (pools_m w)) \<Longrightarrow> distinct (map fst (pools_m w'))"
  by (cases e)
    (auto simp: step_def method_defs complete_fields Let_def distinct_update distinct_delete
      split: if_splits sum.splits option.splits)

lemma step_no_null_dereference:
  "listener_m w \<noteq> NullListener \<Longrightarrow> step e w \<noteq> Inl NullDereference"
  by (cases e)
    (auto simp: step_def method_defs complete_fields Let_def is_ok_def release_pool_def
      split: if_splits sum.splits option.splits)

subsection \<open>Runs\<close>

lemma run_invariant:
  assumes "\<And>e w w'. step e w = Inr w' \<Longrightarrow> P w \<Longrightarrow> P w'"
    and "run es w = Inr w'" and "P w"
  shows "P w'"
  using assms(2,3)
proof (induction es arbitrary: w)
  case Nil
  then show ?case by simp
next
  case (Cons e es)
  then show ?case by (auto split: sum.splits intro: assms(1))
qed

lemma new_manager_facts:
  "listener_m (ConnectionPoolManager pv ks st) = NopListener"
  "\<not> keyspace_mutex_m (ConnectionPoolManager pv ks st)"
  "close_inv (ConnectionPoolManager pv ks st)"
  "pending_wf (ConnectionPoolManager pv ks st)"
  "pools_pending_disjoint (ConnectionPoolManager pv ks st)"
  "distinct (map fst (pools_m (ConnectionPoolManager pv ks st)))"
  by (simp_all add: ConnectionPoolManager_def inc_ref_def close_inv_def on_close_count_def
      pending_wf_def pools_pending_disjoint_def new_connector_def)

lemma reachable_listener:
  assumes "run es (ConnectionPoolManager pv ks st) = Inr w"
  shows "listener_m w \<noteq> NullListener"
proof (rule run_invariant[where P = "\<lambda>w. listener_m w \<noteq> NullListener", OF _ assms])
  show "\<And>e w w'. step e w = Inr w' \<Longrightarrow> listener_m w \<noteq> NullListener
      \<Longrightarrow> listener_m w' \<noteq> NullListener"
    by (rule step_listener)
qed (simp add: new_manager_facts)

lemma reachable_close_inv:
  assumes "run es (ConnectionPoolManager pv ks st) = Inr w"
  shows "close_inv w"
proof (rule run_invariant[where P = close_inv, OF _ assms])
  show "\<And>e w w'. step e w = Inr w' \<Longrightarrow> close_inv w \<Longrightarrow> close_inv w'"
    by (rule step_close_inv)
qed (simp add: new_manager_facts)

lemma reachable_pending_wf:
  assumes "run es (ConnectionPoolManager pv ks st) = Inr w"
  shows "pending_wf w"
proof (rule run_invariant[where P = pending_wf, OF _ assms])
  show "\<And>e w w'. step e w = Inr w' \<Longrightarrow> pending_wf w \<Longrightarrow> pending_wf w'"
    by (rule step_pending_wf)
qed (simp add: new_manager_facts)

lemma reachable_distinct_pools:
  assumes "run es (ConnectionPoolManager pv ks st) = Inr w"
  shows "distinct (map fst (pools_m w))"
proof (rule run_invariant[where P = "\<lambda>w. distinct (map fst (pools_m w))", OF _ assms])
  show "\<And>e w w'. step e w = Inr w' \<Longrightarrow> distinct (map fst (pools_m w))
      \<Longrightarrow> distinct (map fst (pools_m w'))"
    by (rule step_distinct_pools)
qed (simp add: new_manager_facts)

lemma run_close_rank:
  "run es w = Inr w' \<Longrightarrow> close_rank (close_state_m w) \<le> close_rank (close_state_m w')"
proof (induction es arbitrary: w)
  case Nil
  then show ?case by simp
next
  case (Cons e es)
  then show ?case by (auto split: sum.splits dest!: step_close_rank intro: le_trans)
qed

lemma admissible_disjoint:
  "run es w = Inr w' \<Longrightarrow> admissible es w \<Longrightarrow> pending_wf w \<Longrightarrow> pools_pending_disjoint w
   \<Longrightarrow> pools_pending_disjoint w'"
proof (induction es arbitrary: w)
  case Nil
  then show ?case by simp
next
  case (Cons e es)
  then show ?case
    by (auto split: sum.splits intro: step_disjoint step_pending_wf)
qed

lemma run_keyspace:
  "run es w = Inr w' \<Longrightarrow> \<forall>k. SetKeyspace k \<notin> set es \<Longrightarrow> \<not> keyspace_mutex_m w \<Longrightarrow>
     keyspace_m w' = keyspace_m w \<and> \<not> keyspace_mutex_m w'"
proof (induction es arbitrary: w)
  case Nil
  then show ?case by simp
next
  case (Cons e es)
  from Cons.prems(1) obtain w1 where s: "step e w = Inr w1" and r: "run es w1 = Inr w'"
    by (auto split: sum.splits)
  from Cons.prems(2) have ne: "\<forall>k. e \<noteq> SetKeyspace k" and rest: "\<forall>k. SetKeyspace k \<notin> set es"
    by auto
  from step_keyspace[OF s ne] step_mutex[OF s Cons.prems(3)] Cons.IH[OF r rest]
  show ?case by simp
qed

lemma mutex_free_unlock: "\<not> keyspace_mutex_m w \<Longrightarrow> w\<lparr>keyspace_mutex_m := False\<rparr> = w"
  by (cases w) simp

lemmas example_defs = example_manager_def host1_def host2_def idle_connection_def
  ConnectionPoolManager_def one_pool_manager_def

lemmas run_defs = step_def method_defs new_connector_def pending_for_def Let_def complete_def
  is_ok_def release_pool_def pool_close_def

section \<open>The keyspace\<close>

text \<open>
  C10. After \<^verbatim>\<open>set_keyspace(k)\<close>, \<^verbatim>\<open>keyspace()\<close> returns \<open>k\<close>, whatever the keyspace
  was before and whatever the manager does in between, as long as it is no other
  \<^verbatim>\<open>set_keyspace\<close>. Both methods take the keyspace mutex: while another holder has
  it, neither proceeds; otherwise both return with the mutex released.
\<close>

theorem keyspace_round_trip:
  "(keyspace_mutex_m w \<longrightarrow> set_keyspace k w = Inl WouldBlock \<and> keyspace w = Inl WouldBlock) \<and>
   (\<not> keyspace_mutex_m w \<longrightarrow>
      set_keyspace k w = Inr (w\<lparr>keyspace_m := k\<rparr>) \<and>
      keyspace (w\<lparr>keyspace_m := k\<rparr>) = Inr (k, w\<lparr>keyspace_m := k\<rparr>) \<and>
      (\<forall>es w'. run es (w\<lparr>keyspace_m := k\<rparr>) = Inr w' \<and> (\<forall>k'. SetKeyspace k' \<notin> set es)
         \<longrightarrow> keyspace w' = Inr (k, w')))"
proof (intro conjI impI allI)
  assume "keyspace_mutex_m w"
  then show "set_keyspace k w = Inl WouldBlock" "keyspace w = Inl WouldBlock"
    by (simp_all add: set_keyspace_def keyspace_def ScopedMutex_lock_def)
next
  assume free: "\<not> keyspace_mutex_m w"
  then have "w\<lparr>keyspace_m := k, keyspace_mutex_m := False\<rparr> = w\<lparr>keyspace_m := k\<rparr>"
    by (cases w) simp
  with free show "set_keyspace k w = Inr (w\<lparr>keyspace_m := k\<rparr>)"
    by (simp add: set_keyspace_def ScopedMutex_lock_def ScopedMutex_unlock_def)
  from free show "keyspace (w\<lparr>keyspace_m := k\<rparr>) = Inr (k, w\<lparr>keyspace_m := k\<rparr>)"
    by (simp add: keyspace_def ScopedMutex_lock_def ScopedMutex_unlock_def mutex_free_unlock)
  fix es w'
  assume "run es (w\<lparr>keyspace_m := k\<rparr>) = Inr w' \<and> (\<forall>k'. SetKeyspace k' \<notin> set es)"
  with free have "keyspace_m w' = k" "\<not> keyspace_mutex_m w'"
    using run_keyspace[of es "w\<lparr>keyspace_m := k\<rparr>" w'] by simp_all
  then show "keyspace w' = Inr (k, w')"
    by (simp add: keyspace_def ScopedMutex_lock_def ScopedMutex_unlock_def mutex_free_unlock)
qed

theorem keyspace_round_trip_witness:
  "\<not> keyspace_mutex_m example_manager \<and>
   set_keyspace ''system'' example_manager = Inr (example_manager\<lparr>keyspace_m := ''system''\<rparr>) \<and>
   keyspace (example_manager\<lparr>keyspace_m := ''system''\<rparr>) =
     Inr (''system'', example_manager\<lparr>keyspace_m := ''system''\<rparr>) \<and>
   \<not> isl (run [Add host1, Close] (example_manager\<lparr>keyspace_m := ''system''\<rparr>)) \<and>
   keyspace (projr (run [Add host1, Close] (example_manager\<lparr>keyspace_m := ''system''\<rparr>))) =
     Inr (''system'', projr (run [Add host1, Close] (example_manager\<lparr>keyspace_m := ''system''\<rparr>))) \<and>
   keyspace_mutex_m (example_manager\<lparr>keyspace_mutex_m := True\<rparr>) \<and>
   set_keyspace ''system'' (example_manager\<lparr>keyspace_mutex_m := True\<rparr>) = Inl WouldBlock \<and>
   keyspace (example_manager\<lparr>keyspace_mutex_m := True\<rparr>) = Inl WouldBlock"
proof -
  have free: "\<not> keyspace_mutex_m example_manager"
    by (simp add: example_defs inc_ref_def)
  have ran: "\<not> isl (run [Add host1, Close] (example_manager\<lparr>keyspace_m := ''system''\<rparr>))"
    by (simp add: example_defs run_defs)
  then have "run [Add host1, Close] (example_manager\<lparr>keyspace_m := ''system''\<rparr>) =
      Inr (projr (run [Add host1, Close] (example_manager\<lparr>keyspace_m := ''system''\<rparr>)))"
    by simp
  moreover have "\<forall>k'. SetKeyspace k' \<notin> set [Add host1, Close]"
    by simp
  ultimately have "keyspace (projr (run [Add host1, Close] (example_manager\<lparr>keyspace_m := ''system''\<rparr>))) =
      Inr (''system'', projr (run [Add host1, Close] (example_manager\<lparr>keyspace_m := ''system''\<rparr>)))"
    using free keyspace_round_trip[of example_manager "''system''"] by blast
  moreover have "keyspace_mutex_m (example_manager\<lparr>keyspace_mutex_m := True\<rparr>)"
    by simp
  ultimately show ?thesis
    using free ran keyspace_round_trip[of example_manager "''system''"]
      keyspace_round_trip[of "example_manager\<lparr>keyspace_mutex_m := True\<rparr>" "''system''"]
    by blast
qed

section \<open>Picking a connection\<close>

lemma least_busy_of_member: "least_busy_of cs = Some c \<Longrightarrow> c \<in> set cs"
  by (induction cs arbitrary: c) (auto split: option.splits if_splits)

lemma pool_find_least_busy_Some:
  "pool_find_least_busy p = Some c \<Longrightarrow>
     pool_state p \<noteq> Closing \<and> pool_state p \<noteq> Closed \<and> c \<in> set (connections p) \<and> has_free_stream c"
  by (auto simp: pool_find_least_busy_def split: if_splits dest: least_busy_of_member)

lemma pool_find_least_busy_closed: "pool_find_least_busy (pool_close p) = None"
  by (simp add: pool_find_least_busy_def pool_close_def)

text \<open>
  C6. \<^verbatim>\<open>find_least_busy(a)\<close> returns none when the pools map has no pool for \<open>a\<close>. A
  connection it returns belongs to the pool registered for \<open>a\<close>, and that pool is neither
  closing nor closed; in particular it returns none once \<^verbatim>\<open>remove(a)\<close> has started the
  close of the pool.
\<close>

theorem find_least_busy_open_pool:
  "(map_of (pools_m w) a = None \<longrightarrow> find_least_busy a w = None) \<and>
   (\<forall>c. find_least_busy a w = Some c \<longrightarrow>
      (\<exists>p. map_of (pools_m w) a = Some p \<and>
           pool_state (pool_heap w p) \<noteq> Closing \<and> pool_state (pool_heap w p) \<noteq> Closed \<and>
           c \<in> set (connections (pool_heap w p)))) \<and>
   find_least_busy a (remove a w) = None"
  by (auto simp: find_least_busy_def remove_def ConnectionPool_close_def
        pool_find_least_busy_closed
      split: option.splits dest: pool_find_least_busy_Some)

theorem find_least_busy_open_pool_witness:
  "map_of (pools_m one_pool_manager) host2 = None \<and>
   find_least_busy host2 one_pool_manager = None \<and>
   find_least_busy host1 one_pool_manager = Some (idle_connection 7) \<and>
   map_of (pools_m one_pool_manager) host1 = Some 1 \<and>
   pool_state (pool_heap one_pool_manager 1) = Ready \<and>
   find_least_busy host1 (remove host1 one_pool_manager) = None"
  using find_least_busy_open_pool[of one_pool_manager host2]
    find_least_busy_open_pool[of one_pool_manager host1]
  by (simp add: example_defs run_defs find_least_busy_def pool_find_least_busy_def
      has_free_stream_def allocate_pool_def)

section \<open>Removing a pool\<close>

lemma maybe_closed_frame:
  "maybe_closed w = Inr w' \<Longrightarrow>
     pools_m w' = pools_m w \<and> to_flush_m w' = to_flush_m w \<and> pending_pools_m w' = pending_pools_m w \<and>
     calls w' = calls w \<and> pool_heap w' = pool_heap w \<and> connector_heap w' = connector_heap w \<and>
     listener_m w' = listener_m w"
  by (auto simp: maybe_closed_def fire_def dec_ref_def split: if_splits)

lemma maybe_closed_total:
  "listener_m w \<noteq> NullListener \<Longrightarrow> \<exists>w'. maybe_closed w = Inr w'"
  by (simp add: maybe_closed_def fire_def)

lemma notify_closed_effect:
  assumes "listener_m w \<noteq> NullListener"
  shows "\<exists>w'. notify_closed p d w = Inr w' \<and>
           pools_m w' = AList.delete (pool_address (pool_heap w p)) (pools_m w) \<and>
           to_flush_m w' = removeAll p (to_flush_m w)"
proof -
  let ?w2 = "w\<lparr>pools_m := AList.delete (pool_address (pool_heap w p)) (pools_m w),
               to_flush_m := removeAll p (to_flush_m w)\<rparr>"
  let ?w3 = "?w2\<lparr>fired := fired w @ [(listener_m w, on_pool_down (pool_address (pool_heap w p)))]\<rparr>"
  have eq: "notify_closed p d w = maybe_closed (if d then ?w3 else ?w2)"
    using assms by (simp add: notify_closed_def fire_def Let_def)
  from assms have "listener_m (if d then ?w3 else ?w2) \<noteq> NullListener"
    by simp
  then obtain w' where w': "maybe_closed (if d then ?w3 else ?w2) = Inr w'"
    using maybe_closed_total by blast
  from maybe_closed_frame[OF w'] eq w' show ?thesis by (cases d) auto
qed

text \<open>
  C8. \<^verbatim>\<open>remove(a)\<close> on an address without a pool changes nothing. On an address with a
  pool it calls \<^verbatim>\<open>close\<close> on that pool and leaves the pools map and the flush set as
  they are, so \<open>a\<close> is still in \<^verbatim>\<open>available()\<close>. When the pool then calls
  \<^verbatim>\<open>notify_closed\<close>, the entry of \<open>a\<close> leaves the pools map, the pool leaves the flush
  set, and the entries of all other addresses and pools stay.
\<close>

theorem remove_then_notify_closed:
  "(map_of (pools_m w) a = None \<longrightarrow> remove a w = w) \<and>
   (\<forall>p. map_of (pools_m w) a = Some p \<longrightarrow>
      pools_m (remove a w) = pools_m w \<and>
      to_flush_m (remove a w) = to_flush_m w \<and>
      a \<in> set (available (remove a w)) \<and>
      calls (remove a w) = calls w @ [PoolClose p] \<and>
      (pool_address (pool_heap w p) = a \<and> listener_m w \<noteq> NullListener \<longrightarrow>
         (\<forall>d. \<exists>w'. notify_closed p d (remove a w) = Inr w' \<and>
            map_of (pools_m w') a = None \<and>
            a \<notin> set (available w') \<and>
            p \<notin> set (to_flush_m w') \<and>
            (\<forall>b. b \<noteq> a \<longrightarrow> map_of (pools_m w') b = map_of (pools_m w) b) \<and>
            (\<forall>q. q \<noteq> p \<longrightarrow> (q \<in> set (to_flush_m w') \<longleftrightarrow> q \<in> set (to_flush_m w))))))"
proof (intro conjI allI impI)
  assume "map_of (pools_m w) a = None"
  then show "remove a w = w" by (simp add: remove_def)
next
  fix p
  assume p: "map_of (pools_m w) a = Some p"
  then show "pools_m (remove a w) = pools_m w" "to_flush_m (remove a w) = to_flush_m w"
    "calls (remove a w) = calls w @ [PoolClose p]"
    by (simp_all add: remove_def ConnectionPool_close_def)
  from p have "a \<in> fst ` set (pools_m w)"
    by (metis domI dom_map_of_conv_image_fst)
  with p show "a \<in> set (available (remove a w))"
    by (simp add: available_def remove_def ConnectionPool_close_def)
next
  fix p d
  assume p: "map_of (pools_m w) a = Some p"
    and "pool_address (pool_heap w p) = a \<and> listener_m w \<noteq> NullListener"
  then have addr: "pool_address (pool_heap (remove a w) p) = a"
    and l: "listener_m (remove a w) \<noteq> NullListener"
    and same: "pools_m (remove a w) = pools_m w" "to_flush_m (remove a w) = to_flush_m w"
    by (simp_all add: remove_def ConnectionPool_close_def pool_close_def)
  from notify_closed_effect[OF l, of p d] addr same obtain w' where
    w': "notify_closed p d (remove a w) = Inr w'"
      "pools_m w' = AList.delete a (pools_m w)" "to_flush_m w' = removeAll p (to_flush_m w)"
    by auto
  have "a \<notin> set (available w')"
    using delete_notin_dom[of a "pools_m w"] by (simp add: available_def w')
  with w' show "\<exists>w'. notify_closed p d (remove a w) = Inr w' \<and>
            map_of (pools_m w') a = None \<and>
            a \<notin> set (available w') \<and>
            p \<notin> set (to_flush_m w') \<and>
            (\<forall>b. b \<noteq> a \<longrightarrow> map_of (pools_m w') b = map_of (pools_m w) b) \<and>
            (\<forall>q. q \<noteq> p \<longrightarrow> (q \<in> set (to_flush_m w') \<longleftrightarrow> q \<in> set (to_flush_m w)))"
    by (auto simp: delete_conv')
qed

theorem remove_then_notify_closed_witness:
  "map_of (pools_m one_pool_manager) host2 = None \<and>
   remove host2 one_pool_manager = one_pool_manager \<and>
   map_of (pools_m one_pool_manager) host1 = Some 1 \<and>
   pool_address (pool_heap one_pool_manager 1) = host1 \<and>
   listener_m one_pool_manager \<noteq> NullListener \<and>
   available (remove host1 one_pool_manager) = [host1] \<and>
   calls (remove host1 one_pool_manager) = [ConnectorConnect 0, PoolClose 1] \<and>
   (\<exists>w'. notify_closed 1 True (remove host1 one_pool_manager) = Inr w' \<and>
      map_of (pools_m w') host1 = None \<and> host1 \<notin> set (available w'))"
proof -
  have facts: "map_of (pools_m one_pool_manager) host2 = None"
    "map_of (pools_m one_pool_manager) host1 = Some 1"
    "pool_address (pool_heap one_pool_manager 1) = host1"
    "listener_m one_pool_manager \<noteq> NullListener"
    by (simp_all add: example_defs run_defs allocate_pool_def)
  have more: "available (remove host1 one_pool_manager) = [host1]"
    "calls (remove host1 one_pool_manager) = [ConnectorConnect 0, PoolClose 1]"
    by (simp_all add: example_defs run_defs allocate_pool_def available_def)
  show ?thesis
    using facts more remove_then_notify_closed[of one_pool_manager host2]
      remove_then_notify_closed[of one_pool_manager host1]
    by blast
qed

section \<open>Closing the manager\<close>

lemma maybe_closed_not_open:
  "maybe_closed w = Inr w' \<Longrightarrow> close_state_m w \<noteq> CLOSE_STATE_OPEN \<Longrightarrow> close_state_m w' \<noteq> CLOSE_STATE_OPEN"
  by (auto simp: maybe_closed_def fire_def dec_ref_def split: if_splits)

text \<open>
  C2. \<^verbatim>\<open>close()\<close> on an open manager sets \<^verbatim>\<open>close_state_\<close> to closing, calls
  \<^verbatim>\<open>close\<close> once on the pool of every entry of the pools map, in the order of the map,
  then \<^verbatim>\<open>cancel\<close> once on every pending connector, in the order of the vector, and
  ends with \<^verbatim>\<open>maybe_closed()\<close>; afterwards every such pool is closing or closed and
  every such connector is cancelled. On a manager that is not open, \<^verbatim>\<open>close()\<close> is
  \<^verbatim>\<open>maybe_closed()\<close> alone and calls no pool or connector. After \<^verbatim>\<open>close()\<close> the
  manager is not open, and along every run \<^verbatim>\<open>close_state_\<close> only moves forward in the
  order open, closing, closed.
\<close>

theorem close_edge_triggered:
  "(close_state_m w = CLOSE_STATE_OPEN \<longrightarrow>
      (\<exists>w1. close w = maybe_closed w1 \<and>
         close_state_m w1 = CLOSE_STATE_CLOSING \<and>
         pools_m w1 = pools_m w \<and> pending_pools_m w1 = pending_pools_m w \<and>
         calls w1 = calls w @ map (\<lambda>e. PoolClose (snd e)) (pools_m w)
                            @ map ConnectorCancel (pending_pools_m w) \<and>
         (\<forall>e \<in> set (pools_m w). pool_state (pool_heap w1 (snd e)) \<in> {Closing, Closed}) \<and>
         (\<forall>c \<in> set (pending_pools_m w). connector_status (connector_heap w1 c) = Cancelled))) \<and>
   (close_state_m w \<noteq> CLOSE_STATE_OPEN \<longrightarrow>
      close w = maybe_closed w \<and>
      (\<forall>w'. close w = Inr w' \<longrightarrow>
         calls w' = calls w \<and> pool_heap w' = pool_heap w \<and> connector_heap w' = connector_heap w)) \<and>
   (\<forall>w'. close w = Inr w' \<longrightarrow> close_state_m w' \<noteq> CLOSE_STATE_OPEN) \<and>
   (\<forall>es w'. run es w = Inr w' \<longrightarrow> close_rank (close_state_m w) \<le> close_rank (close_state_m w'))"
proof (intro conjI impI allI)
  assume op: "close_state_m w = CLOSE_STATE_OPEN"
  let ?w1 = "cancel_connectors (pending_pools_m w)
               (close_pools (pools_m w) (w\<lparr>close_state_m := CLOSE_STATE_CLOSING\<rparr>))"
  have "close w = maybe_closed ?w1"
    using op by (simp add: close_def)
  moreover have "close_state_m ?w1 = CLOSE_STATE_CLOSING" "pools_m ?w1 = pools_m w"
    "pending_pools_m ?w1 = pending_pools_m w"
    "calls ?w1 = calls w @ map (\<lambda>e. PoolClose (snd e)) (pools_m w)
                         @ map ConnectorCancel (pending_pools_m w)"
    by (simp_all add: close_pools_frame cancel_connectors_frame)
  moreover have "\<forall>e \<in> set (pools_m w). pool_state (pool_heap ?w1 (snd e)) \<in> {Closing, Closed}"
    by (simp add: close_pools_frame cancel_connectors_frame heap_close_pools_state
        del: insert_iff)
  moreover have "\<forall>c \<in> set (pending_pools_m w). connector_status (connector_heap ?w1 c) = Cancelled"
    by (simp add: close_pools_frame cancel_connectors_frame heap_cancel_connectors_status)
  ultimately show "\<exists>w1. close w = maybe_closed w1 \<and>
         close_state_m w1 = CLOSE_STATE_CLOSING \<and>
         pools_m w1 = pools_m w \<and> pending_pools_m w1 = pending_pools_m w \<and>
         calls w1 = calls w @ map (\<lambda>e. PoolClose (snd e)) (pools_m w)
                            @ map ConnectorCancel (pending_pools_m w) \<and>
         (\<forall>e \<in> set (pools_m w). pool_state (pool_heap w1 (snd e)) \<in> {Closing, Closed}) \<and>
         (\<forall>c \<in> set (pending_pools_m w). connector_status (connector_heap w1 c) = Cancelled)"
    by blast
next
  assume "close_state_m w \<noteq> CLOSE_STATE_OPEN"
  then show "close w = maybe_closed w" by (simp add: close_def)
next
  fix w'
  assume "close_state_m w \<noteq> CLOSE_STATE_OPEN" "close w = Inr w'"
  then have "maybe_closed w = Inr w'" by (simp add: close_def)
  from maybe_closed_frame[OF this]
  show "calls w' = calls w" "pool_heap w' = pool_heap w" "connector_heap w' = connector_heap w"
    by simp_all
next
  fix w'
  assume "close w = Inr w'"
  then show "close_state_m w' \<noteq> CLOSE_STATE_OPEN"
    by (auto simp: close_def close_pools_frame cancel_connectors_frame
        split: if_splits dest!: maybe_closed_not_open)
next
  fix es w'
  assume "run es w = Inr w'"
  then show "close_rank (close_state_m w) \<le> close_rank (close_state_m w')"
    by (rule run_close_rank)
qed

theorem close_edge_triggered_witness:
  "close_state_m one_pool_manager = CLOSE_STATE_OPEN \<and>
   \<not> isl (run [Add host2, Close, Close] one_pool_manager) \<and>
   calls (projr (run [Add host2, Close] one_pool_manager)) =
     [ConnectorConnect 0, ConnectorConnect 2, PoolClose 1, ConnectorCancel 2] \<and>
   calls (projr (run [Add host2, Close, Close] one_pool_manager)) =
     [ConnectorConnect 0, ConnectorConnect 2, PoolClose 1, ConnectorCancel 2] \<and>
   close_state_m (projr (run [Add host2, Close, Close] one_pool_manager)) = CLOSE_STATE_CLOSING \<and>
   close_rank (close_state_m one_pool_manager)
     \<le> close_rank (close_state_m (projr (run [Add host2, Close, Close] one_pool_manager)))"
proof -
  have ran: "\<not> isl (run [Add host2, Close, Close] one_pool_manager)"
    by (simp add: example_defs run_defs allocate_pool_def)
  then have "run [Add host2, Close, Close] one_pool_manager =
      Inr (projr (run [Add host2, Close, Close] one_pool_manager))"
    by simp
  with close_edge_triggered[of one_pool_manager]
  have "close_rank (close_state_m one_pool_manager)
     \<le> close_rank (close_state_m (projr (run [Add host2, Close, Close] one_pool_manager)))"
    by blast
  moreover have "close_state_m one_pool_manager = CLOSE_STATE_OPEN"
    "calls (projr (run [Add host2, Close] one_pool_manager)) =
       [ConnectorConnect 0, ConnectorConnect 2, PoolClose 1, ConnectorCancel 2]"
    "calls (projr (run [Add host2, Close, Close] one_pool_manager)) =
       [ConnectorConnect 0, ConnectorConnect 2, PoolClose 1, ConnectorCancel 2]"
    "close_state_m (projr (run [Add host2, Close, Close] one_pool_manager)) = CLOSE_STATE_CLOSING"
    by (simp_all add: example_defs run_defs allocate_pool_def)
  ultimately show ?thesis using ran by blast
qed

section \<open>The listener\<close>

lemma run_no_null_dereference:
  "listener_m w \<noteq> NullListener \<Longrightarrow> run es w \<noteq> Inl NullDereference"
proof (induction es arbitrary: w)
  case Nil
  then show ?case by simp
next
  case (Cons e es)
  then show ?case
    using step_no_null_dereference[of w e] step_listener[of e w]
    by (auto split: sum.splits)
qed

text \<open>
  C9. The constructor installs the no-op listener; \<^verbatim>\<open>set_listener(l)\<close> installs \<open>l\<close>
  when \<open>l\<close> is not null and the no-op listener when it is. So in every state a run of the
  manager reaches the listener is not null, and no run faults on a null listener.
\<close>

theorem listener_never_null:
  "listener_m (ConnectionPoolManager pv ks st) = NopListener \<and>
   listener_m (set_listener l w) = (if l \<noteq> NullListener then l else NopListener) \<and>
   listener_m (set_listener l w) \<noteq> NullListener \<and>
   (\<forall>es w'. run es (ConnectionPoolManager pv ks st) = Inr w' \<longrightarrow> listener_m w' \<noteq> NullListener) \<and>
   (\<forall>es. run es (ConnectionPoolManager pv ks st) \<noteq> Inl NullDereference)"
  using reachable_listener[of _ pv ks st] run_no_null_dereference[of "ConnectionPoolManager pv ks st"]
  by (simp add: new_manager_facts set_listener_def)

theorem listener_never_null_witness:
  "\<not> isl (run [SetListener (UserListener 5), SetListener NullListener, Add host2, Close, NotifyClosed 1 True]
      one_pool_manager) \<and>
   listener_m (projr (run [Add host1, SetListener (UserListener 5), SetListener NullListener, Close]
      example_manager)) \<noteq> NullListener \<and>
   \<not> isl (run [Add host1, SetListener (UserListener 5), SetListener NullListener, Close]
      example_manager) \<and>
   listener_m (set_listener NullListener example_manager) = NopListener \<and>
   listener_m (set_listener (UserListener 5) example_manager) = UserListener 5"
proof -
  have ran: "\<not> isl (run [Add host1, SetListener (UserListener 5), SetListener NullListener, Close]
      example_manager)"
    "\<not> isl (run [SetListener (UserListener 5), SetListener NullListener, Add host2, Close, NotifyClosed 1 True]
      one_pool_manager)"
    by (simp_all add: example_defs run_defs allocate_pool_def)
  then have "run [Add host1, SetListener (UserListener 5), SetListener NullListener, Close] example_manager =
      Inr (projr (run [Add host1, SetListener (UserListener 5), SetListener NullListener, Close]
        example_manager))"
    by simp
  then have "listener_m (projr (run [Add host1, SetListener (UserListener 5), SetListener NullListener, Close]
      example_manager)) \<noteq> NullListener"
    using listener_never_null[of 4 "''ks''"
        "\<lparr>num_connections_per_host = 2, reconnect_wait_time_ms = 2000, queue_size_io = 8192\<rparr>"]
    unfolding example_manager_def by blast
  moreover have "listener_m (set_listener NullListener example_manager) = NopListener"
    "listener_m (set_listener (UserListener 5) example_manager) = UserListener 5"
    by (simp_all add: set_listener_def)
  ultimately show ?thesis using ran by blast
qed

section \<open>The last callback\<close>

lemma close_not_open: "close w = Inr w' \<Longrightarrow> close_state_m w' \<noteq> CLOSE_STATE_OPEN"
  by (auto simp: close_def close_pools_frame cancel_connectors_frame
      split: if_splits dest!: maybe_closed_not_open)

lemma step_not_open:
  "step e w = Inr w' \<Longrightarrow> close_state_m w \<noteq> CLOSE_STATE_OPEN \<Longrightarrow> close_state_m w' \<noteq> CLOSE_STATE_OPEN"
  using step_close_rank[of e w w'] by (cases "close_state_m w"; cases "close_state_m w'") simp_all

lemma run_close_not_open:
  "run es w = Inr w' \<Longrightarrow> Close \<in> set es \<or> close_state_m w \<noteq> CLOSE_STATE_OPEN \<Longrightarrow>
     close_state_m w' \<noteq> CLOSE_STATE_OPEN"
proof (induction es arbitrary: w)
  case Nil
  then show ?case by simp
next
  case (Cons e es)
  from Cons.prems(1) obtain w1 where s: "step e w = Inr w1" and r: "run es w1 = Inr w'"
    by (auto split: sum.splits)
  show ?case
  proof (cases "close_state_m w1 = CLOSE_STATE_OPEN")
    case False
    with Cons.IH[OF r] show ?thesis by simp
  next
    case True
    with s have "close_state_m w = CLOSE_STATE_OPEN" "e \<noteq> Close"
      using step_not_open[OF s] close_not_open[of w w1]
      by (auto simp: step_def split: if_splits)
    with Cons.prems(2) have "Close \<in> set es" by simp
    with Cons.IH[OF r] show ?thesis by simp
  qed
qed

lemma maybe_closed_fired:
  "maybe_closed v = Inr v' \<Longrightarrow>
     fired v' = (if close_state_m v = CLOSE_STATE_CLOSING \<and> pools_m v = []
                 then fired v @ [(listener_m v, on_close)] else fired v)"
  by (auto simp: maybe_closed_def fire_def dec_ref_def split: if_splits)

lemma step_fires_on_close:
  assumes "step e w = Inr w'" and "on_close_count w' \<noteq> on_close_count w"
  shows "(e = Close \<or> (\<exists>p d. e = NotifyClosed p d)) \<and>
         close_state_m w \<noteq> CLOSE_STATE_CLOSED \<and> close_state_m w' = CLOSE_STATE_CLOSED \<and>
         pools_m w' = [] \<and> snd (last (fired w')) = on_close"
  using assms
  by (cases e)
    (auto simp: on_close_count_def step_def method_defs complete_fields Let_def
      split: if_splits sum.splits option.splits)

lemma closed_step_fires:
  assumes "step e w = Inr w'" and "fired w' \<noteq> fired w" and "close_state_m w = CLOSE_STATE_CLOSED"
  shows "(\<exists>p. e = NotifyUp p \<or> e = NotifyDown p \<or> e = NotifyClosed p True) \<or>
         (\<exists>p code message. e = NotifyCriticalError p code message) \<or>
         (\<exists>c attempts. e = ConnectorCompletes c attempts)"
  using assms
  by (cases e)
    (auto simp: step_def method_defs Let_def split: if_splits sum.splits option.splits)

text \<open>
  C1, as the code has it. In every state a run of a constructed manager reaches,
  \<^verbatim>\<open>on_close\<close> has been fired once if \<^verbatim>\<open>close_state_\<close> is closed and never otherwise;
  once \<^verbatim>\<open>close()\<close> has been called the manager is not open, and it is closing only
  while the pools map still has a pool. \<^verbatim>\<open>maybe_closed()\<close> fires \<^verbatim>\<open>on_close\<close> when
  \<^verbatim>\<open>close_state_\<close> is closing and the pools map is empty, and fires nothing otherwise.
  A step that fires \<^verbatim>\<open>on_close\<close> is a \<^verbatim>\<open>close()\<close> or a \<^verbatim>\<open>notify_closed()\<close>, it
  takes the manager to closed with an empty pools map, and \<^verbatim>\<open>on_close\<close> is the last
  callback of that step. On a closed manager, the only steps that fire a callback are
  the notifications of a pool (\<^verbatim>\<open>notify_up\<close>, \<^verbatim>\<open>notify_down\<close>,
  \<^verbatim>\<open>notify_critical_error\<close>, \<^verbatim>\<open>notify_closed\<close> asked to notify) and the completion
  of a connector.
\<close>

theorem on_close_once:
  assumes "run es (ConnectionPoolManager pv ks st) = Inr w"
  shows "on_close_count w = (if close_state_m w = CLOSE_STATE_CLOSED then 1 else 0) \<and>
         (Close \<in> set es \<longrightarrow> close_state_m w \<noteq> CLOSE_STATE_OPEN) \<and>
         (close_state_m w = CLOSE_STATE_CLOSING \<longrightarrow> pools_m w \<noteq> []) \<and>
         (\<forall>v v'. maybe_closed v = Inr v' \<longrightarrow>
            fired v' = (if close_state_m v = CLOSE_STATE_CLOSING \<and> pools_m v = []
                        then fired v @ [(listener_m v, on_close)] else fired v)) \<and>
         (\<forall>e w'. step e w = Inr w' \<and> on_close_count w' \<noteq> on_close_count w \<longrightarrow>
            (e = Close \<or> (\<exists>p d. e = NotifyClosed p d)) \<and>
            close_state_m w \<noteq> CLOSE_STATE_CLOSED \<and> close_state_m w' = CLOSE_STATE_CLOSED \<and>
            pools_m w' = [] \<and> snd (last (fired w')) = on_close) \<and>
         (\<forall>e w'. step e w = Inr w' \<and> fired w' \<noteq> fired w \<and> close_state_m w = CLOSE_STATE_CLOSED \<longrightarrow>
            (\<exists>p. e = NotifyUp p \<or> e = NotifyDown p \<or> e = NotifyClosed p True) \<or>
            (\<exists>p code message. e = NotifyCriticalError p code message) \<or>
            (\<exists>c attempts. e = ConnectorCompletes c attempts))"
proof -
  from reachable_close_inv[OF assms]
  have "on_close_count w = (if close_state_m w = CLOSE_STATE_CLOSED then 1 else 0)"
    and "close_state_m w = CLOSE_STATE_CLOSING \<longrightarrow> pools_m w \<noteq> []"
    by (simp_all add: close_inv_def)
  moreover have "Close \<in> set es \<longrightarrow> close_state_m w \<noteq> CLOSE_STATE_OPEN"
    using run_close_not_open[OF assms] by blast
  moreover have "\<forall>e w'. step e w = Inr w' \<and> fired w' \<noteq> fired w \<and> close_state_m w = CLOSE_STATE_CLOSED \<longrightarrow>
            (\<exists>p. e = NotifyUp p \<or> e = NotifyDown p \<or> e = NotifyClosed p True) \<or>
            (\<exists>p code message. e = NotifyCriticalError p code message) \<or>
            (\<exists>c attempts. e = ConnectorCompletes c attempts)"
    using closed_step_fires by blast
  ultimately show ?thesis
    using maybe_closed_fired step_fires_on_close by blast
qed

theorem on_close_once_witness:
  "\<not> isl (run [Add host1, ConnectorCompletes 0 [Inr (idle_connection 7)],
      Add host2, Close, Close, NotifyClosed 1 True] example_manager) \<and>
   on_close_count (projr (run [Add host1, ConnectorCompletes 0 [Inr (idle_connection 7)],
      Add host2, Close, Close, NotifyClosed 1 True] example_manager)) = 1 \<and>
   close_state_m (projr (run [Add host1, ConnectorCompletes 0 [Inr (idle_connection 7)],
      Add host2, Close, Close, NotifyClosed 1 True] example_manager)) = CLOSE_STATE_CLOSED \<and>
   map snd (fired (projr (run [Add host1, ConnectorCompletes 0 [Inr (idle_connection 7)],
      Add host2, Close, Close, NotifyClosed 1 True] example_manager))) = [on_pool_down host1, on_close]"
proof -
  define r where "r = run [Add host1, ConnectorCompletes 0 [Inr (idle_connection 7)],
      Add host2, Close, Close, NotifyClosed 1 True] example_manager"
  have ran: "\<not> isl r"
    and st: "close_state_m (projr r) = CLOSE_STATE_CLOSED"
    and cb: "map snd (fired (projr r)) = [on_pool_down host1, on_close]"
    unfolding r_def by (simp_all add: example_defs run_defs)
  from ran have "r = Inr (projr r)"
    by simp
  then have "on_close_count (projr r) = (if close_state_m (projr r) = CLOSE_STATE_CLOSED then 1 else 0)"
    using on_close_once[of _ 4 "''ks''"
        "\<lparr>num_connections_per_host = 2, reconnect_wait_time_ms = 2000, queue_size_io = 8192\<rparr>"
        "projr r"]
    unfolding r_def example_manager_def by blast
  with ran st cb show ?thesis
    unfolding r_def by simp
qed

text \<open>
  C1 as stated fails. A holder keeps a reference to the manager and closes it while it
  has no pool: \<^verbatim>\<open>on_close\<close> fires. The holder then calls \<^verbatim>\<open>add\<close>, and the new
  connector fails: \<^verbatim>\<open>on_pool_critical_error\<close> fires after \<^verbatim>\<open>on_close\<close>. And after
  \<^verbatim>\<open>close()\<close> on a manager whose pool has not reported closed, \<^verbatim>\<open>on_close\<close> has not
  fired.
\<close>

theorem on_close_last_counterexample:
  "\<not> isl (run [Retain, Close, Add host2, ConnectorCompletes 0 [Inl (1, ''refused''), Inl (1, ''refused'')]]
      example_manager) \<and>
   map snd (fired (projr (run [Retain, Close, Add host2,
      ConnectorCompletes 0 [Inl (1, ''refused''), Inl (1, ''refused'')]] example_manager))) =
     [on_close, on_pool_critical_error host2 1 ''refused''] \<and>
   \<not> isl (run [Close] one_pool_manager) \<and>
   close_state_m (projr (run [Close] one_pool_manager)) = CLOSE_STATE_CLOSING \<and>
   fired (projr (run [Close] one_pool_manager)) = []"
  by (simp add: example_defs run_defs)

section \<open>Adding a host\<close>

lemma add_noop:
  "map_of (pools_m w) a \<noteq> None \<or> pending_for a w \<Longrightarrow> add a w = w"
  by (auto simp: add_def)

lemma add_pools: "pools_m (add a w) = pools_m w"
  by (simp add: add_def allocate_connector_def ConnectionPoolConnector_connect_def Let_def)

lemma add_registers:
  "map_of (pools_m (add a w)) a \<noteq> None \<or> pending_for a (add a w)"
  by (auto simp: add_def allocate_connector_def ConnectionPoolConnector_connect_def Let_def
      pending_for_iff new_connector_def)

lemma one_entry:
  "distinct (map fst al) \<Longrightarrow> map_of al k = Some v \<Longrightarrow> length (filter (\<lambda>e. fst e = k) al) = 1"
proof (induction al)
  case Nil
  then show ?case by simp
next
  case (Cons e al)
  show ?case
  proof (cases "fst e = k")
    case True
    with Cons.prems(1) have "filter (\<lambda>e. fst e = k) al = []"
      by (fastforce simp: filter_empty_conv image_iff)
    with True show ?thesis by simp
  next
    case False
    with Cons show ?thesis by (cases e) auto
  qed
qed

lemma one_match:
  "distinct (map f xs) \<Longrightarrow> x \<in> set xs \<Longrightarrow> length (filter (\<lambda>y. f y = f x) xs) = 1"
proof (induction xs)
  case Nil
  then show ?case by simp
next
  case (Cons y ys)
  show ?case
  proof (cases "f y = f x")
    case True
    with Cons.prems(1) have "filter (\<lambda>y. f y = f x) ys = []"
      by (fastforce simp: filter_empty_conv image_iff)
    with True show ?thesis by simp
  next
    case False
    with Cons show ?thesis by auto
  qed
qed

text \<open>
  C3. In every state a run of a constructed manager reaches, \<^verbatim>\<open>add(a)\<close> changes nothing
  when \<open>a\<close> has a pool or a pending connector, and a second \<^verbatim>\<open>add(a)\<close> right after a
  first changes nothing. After the two calls, an address that had a pool has exactly one
  entry in the pools map, and an address that had none has no pool and exactly one
  pending connector.
\<close>

theorem add_idempotent:
  assumes "run es (ConnectionPoolManager pv ks st) = Inr w"
  shows "(map_of (pools_m w) a \<noteq> None \<or> pending_for a w \<longrightarrow> add a w = w) \<and>
         add a (add a w) = add a w \<and>
         (map_of (pools_m w) a \<noteq> None \<longrightarrow>
            length (filter (\<lambda>e. fst e = a) (pools_m (add a (add a w)))) = 1) \<and>
         (map_of (pools_m w) a = None \<longrightarrow>
            map_of (pools_m (add a (add a w))) a = None \<and>
            length (filter (\<lambda>c. connector_address (connector_heap (add a (add a w)) c) = a)
                      (pending_pools_m (add a (add a w)))) = 1)"
proof (intro conjI impI)
  assume "map_of (pools_m w) a \<noteq> None \<or> pending_for a w"
  then show "add a w = w" by (rule add_noop)
next
  show twice: "add a (add a w) = add a w"
    using add_registers[of a w] by (rule add_noop)
  {
    assume "map_of (pools_m w) a \<noteq> None"
    then obtain p where "map_of (pools_m w) a = Some p" by auto
    with reachable_distinct_pools[OF assms]
    show "length (filter (\<lambda>e. fst e = a) (pools_m (add a (add a w)))) = 1"
      by (simp add: twice add_pools one_entry)
  }
  {
    assume none: "map_of (pools_m w) a = None"
    then show "map_of (pools_m (add a (add a w))) a = None"
      by (simp add: twice add_pools)
    from none add_registers[of a w] have "pending_for a (add a w)"
      by (simp add: add_pools)
    then obtain c where c: "c \<in> set (pending_pools_m (add a w))"
      "connector_address (connector_heap (add a w) c) = a"
      by (auto simp: pending_for_iff)
    from reachable_pending_wf[OF assms] have "pending_wf (add a w)"
      by (rule add_pending_wf)
    then have "distinct (map (\<lambda>c. connector_address (connector_heap (add a w) c))
        (pending_pools_m (add a w)))"
      by (simp add: pending_wf_def)
    from one_match[OF this c(1)] c(2)
    show "length (filter (\<lambda>c. connector_address (connector_heap (add a (add a w)) c) = a)
                      (pending_pools_m (add a (add a w)))) = 1"
      by (simp add: twice)
  }
qed

theorem add_idempotent_witness:
  "\<not> isl (run [Add host1, ConnectorCompletes 0 [Inl (1, ''refused''), Inr (idle_connection 7)]]
      example_manager) \<and>
   map_of (pools_m one_pool_manager) host1 \<noteq> None \<and>
   add host1 one_pool_manager = one_pool_manager \<and>
   length (filter (\<lambda>e. fst e = host1) (pools_m (add host1 (add host1 one_pool_manager)))) = 1 \<and>
   map_of (pools_m one_pool_manager) host2 = None \<and>
   add host2 (add host2 one_pool_manager) = add host2 one_pool_manager \<and>
   pending_pools_m (add host2 (add host2 one_pool_manager)) = [2] \<and>
   length (filter (\<lambda>c. connector_address (connector_heap (add host2 (add host2 one_pool_manager)) c) = host2)
             (pending_pools_m (add host2 (add host2 one_pool_manager)))) = 1"
proof -
  define r where "r = run [Add host1, ConnectorCompletes 0 [Inl (1, ''refused''), Inr (idle_connection 7)]]
      example_manager"
  have ran: "\<not> isl r"
    unfolding r_def by (simp add: example_defs run_defs)
  then have "r = Inr (projr r)" by simp
  then have reach: "run [Add host1, ConnectorCompletes 0 [Inl (1, ''refused''), Inr (idle_connection 7)]]
      (ConnectionPoolManager 4 ''ks''
        \<lparr>num_connections_per_host = 2, reconnect_wait_time_ms = 2000, queue_size_io = 8192\<rparr>) =
      Inr one_pool_manager"
    unfolding r_def one_pool_manager_def example_manager_def .
  have h1: "map_of (pools_m one_pool_manager) host1 \<noteq> None"
    and h2: "map_of (pools_m one_pool_manager) host2 = None"
    and p: "pending_pools_m (add host2 one_pool_manager) = [2]"
    by (simp_all add: example_defs run_defs)
  from add_idempotent[OF reach, of host1] add_idempotent[OF reach, of host2] h1 h2 p ran
  show ?thesis
    unfolding r_def by metis
qed

section \<open>Pools and pending connectors\<close>

text \<open>
  C4, as the code has it. In every state reached by a run of a constructed manager in
  which \<^verbatim>\<open>add_pool\<close> is only called for a pool whose address has no pending connector,
  no address with a pool has a pending connector; and from such a state every step keeps
  it so: \<^verbatim>\<open>add\<close>, \<^verbatim>\<open>remove\<close>, \<^verbatim>\<open>close\<close>, the completion of a connector
  (\<^verbatim>\<open>handle_connect\<close>), \<^verbatim>\<open>notify_closed\<close> and the other methods always, \<^verbatim>\<open>add_pool\<close>
  when the address of its pool has no pending connector.
\<close>

theorem pools_pending_disjoint_invariant:
  assumes "run es (ConnectionPoolManager pv ks st) = Inr w"
    and "admissible es (ConnectionPoolManager pv ks st)"
  shows "pools_pending_disjoint w \<and>
         (\<forall>e w'. step e w = Inr w' \<and>
            (\<forall>p. e = AddPool p \<longrightarrow> \<not> pending_for (pool_address (pool_heap w p)) w)
            \<longrightarrow> pools_pending_disjoint w')"
proof -
  have wf: "pending_wf w"
    using assms(1) by (rule reachable_pending_wf)
  have d: "pools_pending_disjoint w"
    using assms new_manager_facts(4,5) by (rule admissible_disjoint)
  have "pools_pending_disjoint w'"
    if "step e w = Inr w'" "\<forall>p. e = AddPool p \<longrightarrow> \<not> pending_for (pool_address (pool_heap w p)) w"
    for e w'
  proof -
    from that(2) have "respects_pending e w"
      by (cases e) (simp_all add: respects_pending_def)
    with that(1) wf d show ?thesis
      by (rule step_disjoint)
  qed
  with d show ?thesis by blast
qed

theorem pools_pending_disjoint_invariant_witness:
  "\<not> isl (run [NewPool \<lparr>pool_address = host2, pool_state = Ready, connections = [idle_connection 3]\<rparr>,
      AddPool 0, Add host1, Add host2, ConnectorCompletes 1 [Inr (idle_connection 7)],
      Remove host2, NotifyClosed 0 True, Add host2] example_manager) \<and>
   admissible [NewPool \<lparr>pool_address = host2, pool_state = Ready, connections = [idle_connection 3]\<rparr>,
      AddPool 0, Add host1, Add host2, ConnectorCompletes 1 [Inr (idle_connection 7)],
      Remove host2, NotifyClosed 0 True, Add host2] example_manager \<and>
   pools_pending_disjoint (projr (run
     [NewPool \<lparr>pool_address = host2, pool_state = Ready, connections = [idle_connection 3]\<rparr>,
      AddPool 0, Add host1, Add host2, ConnectorCompletes 1 [Inr (idle_connection 7)],
      Remove host2, NotifyClosed 0 True, Add host2] example_manager)) \<and>
   pools_m (projr (run
     [NewPool \<lparr>pool_address = host2, pool_state = Ready, connections = [idle_connection 3]\<rparr>,
      AddPool 0, Add host1, Add host2, ConnectorCompletes 1 [Inr (idle_connection 7)],
      Remove host2, NotifyClosed 0 True, Add host2] example_manager)) = [(host1, 2)] \<and>
   pending_pools_m (projr (run
     [NewPool \<lparr>pool_address = host2, pool_state = Ready, connections = [idle_connection 3]\<rparr>,
      AddPool 0, Add host1, Add host2, ConnectorCompletes 1 [Inr (idle_connection 7)],
      Remove host2, NotifyClosed 0 True, Add host2] example_manager)) = [3]"
proof -
  define es where "es =
     [NewPool \<lparr>pool_address = host2, pool_state = Ready, connections = [idle_connection 3]\<rparr>,
      AddPool 0, Add host1, Add host2, ConnectorCompletes 1 [Inr (idle_connection 7)],
      Remove host2, NotifyClosed 0 True, Add host2]"
  define r where "r = run es example_manager"
  have ran: "\<not> isl r"
    and pools: "pools_m (projr r) = [(host1, 2)]"
    and pending: "pending_pools_m (projr r) = [3]"
    unfolding r_def es_def by (simp_all add: example_defs run_defs)
  have adm: "admissible es example_manager"
    unfolding es_def by (simp add: example_defs run_defs respects_pending_def)
  from ran have "r = Inr (projr r)" by simp
  then have "pools_pending_disjoint (projr r)"
    using adm pools_pending_disjoint_invariant[of es 4 "''ks''"
        "\<lparr>num_connections_per_host = 2, reconnect_wait_time_ms = 2000, queue_size_io = 8192\<rparr>"
        "projr r"]
    unfolding r_def example_manager_def by blast
  with ran adm pools pending show ?thesis
    unfolding r_def es_def by blast
qed

text \<open>
  C4 as stated fails: \<^verbatim>\<open>add_pool\<close> registers a pool for \<open>host1\<close> while the connector
  that \<^verbatim>\<open>add(host1)\<close> started is still pending.
\<close>

theorem pools_pending_disjoint_counterexample:
  "\<not> isl (run [Add host1,
      NewPool \<lparr>pool_address = host1, pool_state = Ready, connections = [idle_connection 7]\<rparr>,
      AddPool 1] example_manager) \<and>
   pools_m (projr (run [Add host1,
      NewPool \<lparr>pool_address = host1, pool_state = Ready, connections = [idle_connection 7]\<rparr>,
      AddPool 1] example_manager)) = [(host1, 1)] \<and>
   pending_pools_m (projr (run [Add host1,
      NewPool \<lparr>pool_address = host1, pool_state = Ready, connections = [idle_connection 7]\<rparr>,
      AddPool 1] example_manager)) = [0] \<and>
   connector_address (connector_heap (projr (run [Add host1,
      NewPool \<lparr>pool_address = host1, pool_state = Ready, connections = [idle_connection 7]\<rparr>,
      AddPool 1] example_manager)) 0) = host1 \<and>
   \<not> pools_pending_disjoint (projr (run [Add host1,
      NewPool \<lparr>pool_address = host1, pool_state = Ready, connections = [idle_connection 7]\<rparr>,
      AddPool 1] example_manager))"
  by (simp add: example_defs run_defs pools_pending_disjoint_def)

section \<open>A connector that fails\<close>




section \<open>Shutdown with a connector in flight\<close>

lemma add_fields:
  "close_state_m (add a w) = close_state_m w"
  "listener_m (add a w) = listener_m w"
  "fired (add a w) = fired w"
  "ref_count_m (add a w) = ref_count_m w"
  by (simp_all add: add_def allocate_connector_def ConnectionPoolConnector_connect_def Let_def)

lemma close_open:
  assumes "close_state_m w = CLOSE_STATE_OPEN" and "listener_m w \<noteq> NullListener"
  shows "\<exists>w'. close w = Inr w' \<and>
           pending_pools_m w' = pending_pools_m w \<and>
           connector_heap w' = heap_cancel_connectors (pending_pools_m w) (connector_heap w) \<and>
           calls w' = calls w @ map (\<lambda>e. PoolClose (snd e)) (pools_m w)
                              @ map ConnectorCancel (pending_pools_m w) \<and>
           fired w' = (if pools_m w = [] then fired w @ [(listener_m w, on_close)] else fired w) \<and>
           close_state_m w' =
             (if pools_m w = [] then CLOSE_STATE_CLOSED else CLOSE_STATE_CLOSING)"
  using assms
  by (simp add: close_def maybe_closed_def fire_def dec_ref_def close_pools_frame
      cancel_connectors_frame)

lemma run_close_inv: "run es w = Inr w' \<Longrightarrow> close_inv w \<Longrightarrow> close_inv w'"
  by (rule run_invariant[where P = close_inv, OF step_close_inv])

text \<open>
  C7, as the code has it. Take a state that a run of a constructed manager reaches, with
  the manager alive and open, and call \<^verbatim>\<open>add(a)\<close> and then \<^verbatim>\<open>close()\<close>. A connector
  for \<open>a\<close> is pending, unless \<open>a\<close> had a pool already; \<^verbatim>\<open>close()\<close> calls \<^verbatim>\<open>cancel\<close> on every pending connector and
  leaves it cancelled; a connector cancelled this way does not call back, so whatever the
  transport reports for it afterwards, the state, and with it the list of callbacks
  fired, stays as it is. The two calls fire no \<^verbatim>\<open>on_pool_up\<close>. When the manager has no
  pool they fire one callback, \<^verbatim>\<open>on_close\<close>, which has then fired exactly once, and the
  manager is closed. When it has a pool they fire nothing and the manager is closing:
  \<^verbatim>\<open>on_close\<close> waits for the pools. In every later state \<^verbatim>\<open>on_close\<close> has fired at
  most once.
\<close>

theorem close_with_pending_connector:
  assumes "run es (ConnectionPoolManager pv ks st) = Inr w"
    and "close_state_m w = CLOSE_STATE_OPEN"
    and "0 < ref_count_m w"
  shows "\<exists>w'. run [Add a, Close] w = Inr w' \<and>
           (map_of (pools_m w) a = None \<longrightarrow> pending_for a w') \<and>
           (\<forall>c \<in> set (pending_pools_m w').
              connector_status (connector_heap w' c) = Cancelled \<and>
              ConnectorCancel c \<in> set (calls w') \<and>
              (\<forall>attempts. step (ConnectorCompletes c attempts) w' = Inr w')) \<and>
           fired w' = (if pools_m w = [] then fired w @ [(listener_m w, on_close)] else fired w) \<and>
           on_close_count w' = (if pools_m w = [] then 1 else 0) \<and>
           close_state_m w' = (if pools_m w = [] then CLOSE_STATE_CLOSED else CLOSE_STATE_CLOSING) \<and>
           (\<forall>fs w''. run fs w' = Inr w'' \<longrightarrow> on_close_count w'' \<le> 1)"
proof -
  let ?w1 = "add a w"
  have l: "listener_m w \<noteq> NullListener"
    using assms(1) by (rule reachable_listener)
  from close_open[of ?w1] assms(2) l obtain w' where
    c: "close ?w1 = Inr w'"
    and pend: "pending_pools_m w' = pending_pools_m ?w1"
    and heap: "connector_heap w' = heap_cancel_connectors (pending_pools_m ?w1) (connector_heap ?w1)"
    and cl: "calls w' = calls ?w1 @ map (\<lambda>e. PoolClose (snd e)) (pools_m ?w1)
                              @ map ConnectorCancel (pending_pools_m ?w1)"
    and f: "fired w' = (if pools_m w = [] then fired w @ [(listener_m w, on_close)] else fired w)"
    and s: "close_state_m w' = (if pools_m w = [] then CLOSE_STATE_CLOSED else CLOSE_STATE_CLOSING)"
    by (auto simp: add_fields add_pools)
  have r: "run [Add a, Close] w = Inr w'"
    using assms(3) c by (simp add: step_def add_fields)
  have "pending_for a ?w1" if "map_of (pools_m w) a = None"
    using add_registers[of a w] that by (simp add: add_pools)
  then have p: "map_of (pools_m w) a = None \<longrightarrow> pending_for a w'"
    by (simp add: pend heap pending_for_iff heap_cancel_connectors_address)
  have cancelled: "connector_status (connector_heap w' c) = Cancelled \<and>
      ConnectorCancel c \<in> set (calls w') \<and>
      (\<forall>attempts. step (ConnectorCompletes c attempts) w' = Inr w')"
    if "c \<in> set (pending_pools_m w')" for c
  proof -
    from that have "connector_status (connector_heap w' c) = Cancelled"
      and "ConnectorCancel c \<in> set (calls w')"
      by (simp_all add: pend heap cl heap_cancel_connectors_status)
    then show ?thesis by (simp add: step_def)
  qed
  have inv: "close_inv w'"
    using reachable_close_inv[OF assms(1)] run_close_inv[OF r] by simp
  with s have n: "on_close_count w' = (if pools_m w = [] then 1 else 0)"
    by (simp add: close_inv_def)
  have later: "on_close_count w'' \<le> 1" if "run fs w' = Inr w''" for fs w''
    using run_close_inv[OF that inv] by (simp add: close_inv_def)
  have c1: "\<forall>c \<in> set (pending_pools_m w').
              connector_status (connector_heap w' c) = Cancelled \<and>
              ConnectorCancel c \<in> set (calls w') \<and>
              (\<forall>attempts. step (ConnectorCompletes c attempts) w' = Inr w')"
    using cancelled by blast
  have l1: "\<forall>fs w''. run fs w' = Inr w'' \<longrightarrow> on_close_count w'' \<le> 1"
    using later by blast
  show ?thesis
    by (rule exI[of _ w']) (intro conjI r p c1 f n s l1)
qed

theorem close_with_pending_connector_witness:
  "close_state_m example_manager = CLOSE_STATE_OPEN \<and>
   0 < ref_count_m example_manager \<and>
   pools_m example_manager = [] \<and>
   pending_pools_m (projr (run [Add host1, Close] example_manager)) = [0] \<and>
   connector_status (connector_heap (projr (run [Add host1, Close] example_manager)) 0) = Cancelled \<and>
   calls (projr (run [Add host1, Close] example_manager)) = [ConnectorConnect 0, ConnectorCancel 0] \<and>
   fired (projr (run [Add host1, Close] example_manager)) = [(NopListener, on_close)] \<and>
   fired (projr (run [Add host1, Close, ConnectorCompletes 0 [Inr (idle_connection 7)]] example_manager)) =
     [(NopListener, on_close)] \<and>
   (\<exists>w'. run [Add host1, Close] example_manager = Inr w' \<and> on_close_count w' = 1 \<and>
      step (ConnectorCompletes 0 [Inr (idle_connection 7)]) w' = Inr w') \<and>
   close_state_m one_pool_manager = CLOSE_STATE_OPEN \<and>
   0 < ref_count_m one_pool_manager \<and>
   pools_m one_pool_manager = [(host1, 1)] \<and>
   pending_pools_m (projr (run [Add host2, Close] one_pool_manager)) = [2] \<and>
   (\<exists>w'. run [Add host2, Close] one_pool_manager = Inr w' \<and>
      connector_status (connector_heap w' 2) = Cancelled \<and>
      fired w' = [] \<and> on_close_count w' = 0 \<and> close_state_m w' = CLOSE_STATE_CLOSING \<and>
      step (ConnectorCompletes 2 [Inr (idle_connection 8)]) w' = Inr w')"
proof -
  have h: "run [] (ConnectionPoolManager 4 ''ks''
      \<lparr>num_connections_per_host = 2, reconnect_wait_time_ms = 2000, queue_size_io = 8192\<rparr>) =
      Inr example_manager"
    "close_state_m example_manager = CLOSE_STATE_OPEN"
    "0 < ref_count_m example_manager"
    and e: "pools_m example_manager = []"
    by (simp_all add: example_defs inc_ref_def)
  define r where "r = run [Add host1, Close] example_manager"
  define r' where "r' = run [Add host1, Close, ConnectorCompletes 0 [Inr (idle_connection 7)]] example_manager"
  have v: "pending_pools_m (projr r) = [0]"
    "connector_status (connector_heap (projr r) 0) = Cancelled"
    "calls (projr r) = [ConnectorConnect 0, ConnectorCancel 0]"
    "fired (projr r) = [(NopListener, on_close)]"
    "fired (projr r') = [(NopListener, on_close)]"
    unfolding r_def r'_def by (simp_all add: example_defs run_defs)
  from close_with_pending_connector[OF h, of host1] e obtain w' where
    w': "r = Inr w'" "on_close_count w' = 1"
      "\<forall>c \<in> set (pending_pools_m w'). \<forall>attempts. step (ConnectorCompletes c attempts) w' = Inr w'"
    unfolding r_def by auto
  from w'(1) v(1) have "0 \<in> set (pending_pools_m w')" by simp
  with w'(3) have "step (ConnectorCompletes 0 [Inr (idle_connection 7)]) w' = Inr w'" by blast
  with w'(1,2) have first: "\<exists>w'. r = Inr w' \<and> on_close_count w' = 1 \<and>
      step (ConnectorCompletes 0 [Inr (idle_connection 7)]) w' = Inr w'"
    by blast
  define q where "q = run [Add host1, ConnectorCompletes 0 [Inl (1, ''refused''), Inr (idle_connection 7)]]
      example_manager"
  have "\<not> isl q"
    unfolding q_def by (simp add: example_defs run_defs)
  then have "q = Inr (projr q)" by simp
  then have reach: "run [Add host1, ConnectorCompletes 0 [Inl (1, ''refused''), Inr (idle_connection 7)]]
      (ConnectionPoolManager 4 ''ks''
        \<lparr>num_connections_per_host = 2, reconnect_wait_time_ms = 2000, queue_size_io = 8192\<rparr>) =
      Inr one_pool_manager"
    unfolding q_def one_pool_manager_def example_manager_def .
  have g: "close_state_m one_pool_manager = CLOSE_STATE_OPEN" "0 < ref_count_m one_pool_manager"
    and o: "pools_m one_pool_manager = [(host1, 1)]"
    by (simp_all add: example_defs run_defs inc_ref_def)
  define t where "t = run [Add host2, Close] one_pool_manager"
  have u: "pending_pools_m (projr t) = [2]"
    unfolding t_def by (simp add: example_defs run_defs)
  from close_with_pending_connector[OF reach g, of host2] o obtain x where
    x: "t = Inr x"
      "\<forall>c \<in> set (pending_pools_m x). connector_status (connector_heap x c) = Cancelled \<and>
         (\<forall>attempts. step (ConnectorCompletes c attempts) x = Inr x)"
      "fired x = fired one_pool_manager" "on_close_count x = 0"
      "close_state_m x = CLOSE_STATE_CLOSING"
    unfolding t_def by auto
  have "fired one_pool_manager = []"
    by (simp add: example_defs run_defs)
  moreover from x(1) u have "2 \<in> set (pending_pools_m x)" by simp
  ultimately have second: "\<exists>w'. t = Inr w' \<and>
      connector_status (connector_heap w' 2) = Cancelled \<and>
      fired w' = [] \<and> on_close_count w' = 0 \<and> close_state_m w' = CLOSE_STATE_CLOSING \<and>
      step (ConnectorCompletes 2 [Inr (idle_connection 8)]) w' = Inr w'"
    using x by auto
  from h(2,3) e v first g o u second show ?thesis
    unfolding r_def r'_def t_def by (intro conjI)
qed

text \<open>
  C7 as stated fails. When the manager has a pool, \<^verbatim>\<open>add\<close> and \<^verbatim>\<open>close()\<close> leave it
  closing and \<^verbatim>\<open>on_close\<close> has not fired. When a holder has closed the manager
  before, the second \<^verbatim>\<open>close()\<close> is \<^verbatim>\<open>maybe_closed()\<close> alone: the connector that
  \<^verbatim>\<open>add\<close> started is not cancelled, and when it fails \<^verbatim>\<open>on_pool_critical_error\<close>
  fires after \<^verbatim>\<open>on_close\<close>.
\<close>

theorem close_with_pending_connector_counterexample:
  "\<not> isl (run [Add host2, Close] one_pool_manager) \<and>
   close_state_m (projr (run [Add host2, Close] one_pool_manager)) = CLOSE_STATE_CLOSING \<and>
   fired (projr (run [Add host2, Close] one_pool_manager)) = [] \<and>
   on_close_count (projr (run [Add host2, Close] one_pool_manager)) = 0 \<and>
   \<not> isl (run [Retain, Close, Add host1, Close, ConnectorCompletes 0 [Inl (1, ''refused'')]]
      example_manager) \<and>
   connector_status (connector_heap (projr (run [Retain, Close, Add host1, Close] example_manager)) 0) =
     Connecting \<and>
   calls (projr (run [Retain, Close, Add host1, Close] example_manager)) = [ConnectorConnect 0] \<and>
   map snd (fired (projr (run [Retain, Close, Add host1, Close,
      ConnectorCompletes 0 [Inl (1, ''refused'')]] example_manager))) =
     [on_close, on_pool_critical_error host1 1 ''refused'']"
  by (simp add: example_defs run_defs on_close_count_def)

end
